theory Spec2Isabelle
  imports Main "HOL-Library.Multiset" "HOL-Library.AList"
begin

section \<open>JavaScript values\<close>

text \<open>
  The scatter worker (\<^verbatim>\<open>scatter-worker/src/job.ts\<close>) reads its configuration from
  the property bag of the target entity, a \<^verbatim>\<open>Record<string, unknown>\<close> that was
  parsed from JSON. A property value is modelled by \<open>jsval\<close>; a missing key reads as
  \<open>JUndefined\<close>. Numbers are the integers; fractional numbers, arrays and nested
  objects are not part of the model.
\<close>

datatype jsval = JUndefined | JNull | JBool bool | JNum int | JStr string

text \<open>ToBoolean: what \<^verbatim>\<open>if (v)\<close>, \<^verbatim>\<open>v || d\<close> and \<^verbatim>\<open>v && e\<close> test.\<close>

fun truthy :: "jsval \<Rightarrow> bool" where
  "truthy JUndefined = False"
| "truthy JNull = False"
| "truthy (JBool b) = b"
| "truthy (JNum n) = (n \<noteq> 0)"
| "truthy (JStr s) = (s \<noteq> [])"

text \<open>\<^verbatim>\<open>a || b\<close>\<close>

definition js_or :: "jsval \<Rightarrow> jsval \<Rightarrow> jsval" where
  "js_or a b = (if truthy a then a else b)"

text \<open>Number to string, as a template literal renders an integer.\<close>

definition digit_char :: "nat \<Rightarrow> char" where
  "digit_char d = char_of (48 + d)"

function show_nat :: "nat \<Rightarrow> string" where
  "show_nat n = (if n < 10 then [digit_char n] else show_nat (n div 10) @ [digit_char (n mod 10)])"
  by pat_completeness auto
termination
  by (relation "measure (\<lambda>n. n)") auto

declare show_nat.simps [simp del]

definition show_int :: "int \<Rightarrow> string" where
  "show_int i = (if i < 0 then CHR ''-'' # show_nat (nat (- i)) else show_nat (nat i))"

text \<open>
  ToString, as \<^verbatim>\<open>${v}\<close> in a template literal applies it. A number is printed with all
  its digits, which is what the language does for integers below \<open>10\<^sup>2\<^sup>1\<close> in magnitude
  (from there on it prints an exponent).
\<close>

fun js_to_string :: "jsval \<Rightarrow> string" where
  "js_to_string JUndefined = ''undefined''"
| "js_to_string JNull = ''null''"
| "js_to_string (JBool b) = (if b then ''true'' else ''false'')"
| "js_to_string (JNum n) = show_int n"
| "js_to_string (JStr s) = s"

text \<open>
  ToNumber, as \<^verbatim>\<open>batchStart < numCopies\<close> and \<^verbatim>\<open>Math.min(_, numCopies)\<close> apply it;
  \<open>None\<close> is NaN. The conversion of a string is the language's StringToNumber, which
  is taken as a parameter.
\<close>

fun to_number :: "(string \<Rightarrow> int option) \<Rightarrow> jsval \<Rightarrow> int option" where
  "to_number s2n JUndefined = None"
| "to_number s2n JNull = Some 0"
| "to_number s2n (JBool b) = Some (if b then 1 else 0)"
| "to_number s2n (JNum n) = Some n"
| "to_number s2n (JStr s) = s2n s"

section \<open>Records of the entity store\<close>

type_synonym props = "(string \<times> jsval) list"

text \<open>\<^verbatim>\<open>obj.key\<close>\<close>

definition get_prop :: "props \<Rightarrow> string \<Rightarrow> jsval" where
  "get_prop ps k = (case map_of ps k of None \<Rightarrow> JUndefined | Some v \<Rightarrow> v)"

record relationship =
  predicate :: string
  peer :: string
  peer_type :: string
  peer_label :: jsval

record entity =
  ent_id :: string
  ent_type :: string
  ent_properties :: props
  ent_relationships :: "relationship list option"

record create_body =
  cb_type :: string
  cb_collection :: string
  cb_properties :: props
  cb_relationships :: "relationship list"

record update_body =
  expect_tip :: string
  relationships_add :: "relationship list"

record tip =
  cid :: string

text \<open>
  What the API client resolves to: \<^verbatim>\<open>{ data, error }\<close>. \<open>data = None\<close> is a falsy
  \<^verbatim>\<open>data\<close>, \<open>error = Some e\<close> a truthy \<^verbatim>\<open>error\<close>.
\<close>

record 'a reply =
  data :: "'a option"
  error :: "string option"

record job =
  target_entity :: string
  target_collection :: string
  agentId :: string
  isWorkflow :: bool

text \<open>The element type of \<^verbatim>\<open>copies\<close>: \<^verbatim>\<open>{ id: string; entity_class?: string }\<close>.\<close>

record copy_result =
  copy_id :: string
  entity_class :: jsval

text \<open>\<^verbatim>\<open>Output\<close>: an entity id, or an item with routing properties.\<close>

datatype Output = EntityId string | OutputItem string jsval

text \<open>What a thrown \<^verbatim>\<open>Error\<close> carries.\<close>

datatype job_error =
    FetchTargetFailed string
  | CreateCopyFailed nat "string option"
  | FetchWithRelationshipsFailed string
  | FetchCopyFailed string "string option"
  | ApiRejected string

text \<open>What the job did to the outside: log lines and API calls with their replies.\<close>

datatype event =
    Log string string
  | Posted create_body "entity reply"
  | GotTip string "string + tip reply"
  | Updated string update_body "string + unit reply"
  | Fetched string "entity reply"

text \<open>
  The collaborators of the job: the harness (\<^verbatim>\<open>job.fetchTarget\<close>), the API client
  (\<^verbatim>\<open>job.client.api\<close>), the clock, and the order in which the requests in flight
  complete (\<open>pick w n\<close> chooses among \<open>n\<close> pending requests). \<open>'w\<close> is the state of
  everything outside the job. The tip read and the conditional update are awaited on
  their own, outside any \<^verbatim>\<open>try\<close>: they either resolve to a reply (\<open>Inr\<close>) or reject, which
  throws (\<open>Inl\<close>), as \<^verbatim>\<open>job.fetchTarget\<close> does. For a creation or a fetch of a batch the
  model has the reply only: a promise that rejects there makes \<^verbatim>\<open>Promise.all\<close> reject and
  the job throw, as a refused reply does.
\<close>

record 'w env =
  fetchTarget :: "'w \<Rightarrow> (string + entity) \<times> 'w"
  api_POST_entities :: "create_body \<Rightarrow> 'w \<Rightarrow> entity reply \<times> 'w"
  api_GET_tip :: "string \<Rightarrow> 'w \<Rightarrow> (string + tip reply) \<times> 'w"
  api_PUT_entity :: "string \<Rightarrow> update_body \<Rightarrow> 'w \<Rightarrow> (string + unit reply) \<times> 'w"
  api_GET_entity :: "string \<Rightarrow> 'w \<Rightarrow> entity reply \<times> 'w"
  now_iso :: "'w \<Rightarrow> string"
  pick :: "'w \<Rightarrow> nat \<Rightarrow> nat"
  StringToNumber :: "string \<Rightarrow> int option"

section \<open>Requests in flight and \<^verbatim>\<open>Promise.all\<close>\<close>

text \<open>
  The requests of a batch are all issued before the job awaits any of them. They
  complete one at a time, in the order \<open>pick\<close> chooses; each completion runs the request
  against the outside world. The result lists \<open>(slot, request, reply)\<close> in completion
  order.
\<close>

function settle_all ::
  "('w \<Rightarrow> nat \<Rightarrow> nat) \<Rightarrow> ('q \<Rightarrow> 'w \<Rightarrow> 'r \<times> 'w) \<Rightarrow> (nat \<times> 'q) list \<Rightarrow> 'w
     \<Rightarrow> (nat \<times> 'q \<times> 'r) list \<times> 'w" where
  "settle_all pk exec pending w =
     (if pending = [] then ([], w)
      else
        let k = pk w (length pending) mod length pending;
            slot = fst (pending ! k);
            q = snd (pending ! k);
            rw = exec q w;
            rest = settle_all pk exec (take k pending @ drop (Suc k) pending) (snd rw)
        in ((slot, q, fst rw) # fst rest, snd rest))"
  by pat_completeness auto
termination
proof (relation "measure (\<lambda>(pk, exec, pending, w). length pending)", goal_cases)
  case 1
  show ?case by simp
next
  case (2 pk exec pending w k)
  then have "k < length pending" by simp
  then show ?case by simp
qed

declare settle_all.simps [simp del]

text \<open>
  \<^verbatim>\<open>Promise.all\<close> over the settled promises of a batch, given in completion order with
  their slots: it rejects with the first rejection, and otherwise fulfils with the values
  in slot order.
\<close>

fun rejections :: "(nat \<times> ('e + 'a)) list \<Rightarrow> 'e list" where
  "rejections [] = []"
| "rejections ((slot, Inl e) # xs) = e # rejections xs"
| "rejections ((slot, Inr v) # xs) = rejections xs"

fun fulfilled :: "(nat \<times> ('e + 'a)) list \<Rightarrow> 'a list" where
  "fulfilled [] = []"
| "fulfilled ((slot, Inl e) # xs) = fulfilled xs"
| "fulfilled ((slot, Inr v) # xs) = v # fulfilled xs"

definition promise_all :: "(nat \<times> ('e + 'a)) list \<Rightarrow> 'e + 'a list" where
  "promise_all settled =
     (case rejections settled of
        e # _ \<Rightarrow> Inl e
      | [] \<Rightarrow> Inr (fulfilled (sort_key fst settled)))"

text \<open>
  A batch: issue every request, let them complete in the order \<open>pick\<close> chooses, run
  each promise's \<^verbatim>\<open>.then\<close> handler on its reply, and await \<^verbatim>\<open>Promise.all\<close>.
  The second component is the completion list.
\<close>

definition await_batch ::
  "('w \<Rightarrow> nat \<Rightarrow> nat) \<Rightarrow> ('q \<Rightarrow> 'w \<Rightarrow> 'r \<times> 'w) \<Rightarrow> (nat \<Rightarrow> 'r \<Rightarrow> 'e + 'a) \<Rightarrow> 'q list \<Rightarrow> 'w
     \<Rightarrow> ('e + 'a list) \<times> (nat \<times> 'q \<times> 'r) list \<times> 'w" where
  "await_batch pk exec handler reqs w =
     (let sw = settle_all pk exec (enumerate 0 reqs) w;
          settled = map (\<lambda>(slot, q, r). (slot, handler slot r)) (fst sw)
      in (promise_all settled, fst sw, snd sw))"

section \<open>The scatter worker's job\<close>

definition DEFAULT_COPY_COUNT :: int where
  "DEFAULT_COPY_COUNT = 3"

definition BATCH_SIZE :: nat where
  "BATCH_SIZE = 20"

text \<open>\<^verbatim>\<open>(target.properties.copy_count as number) || DEFAULT_COPY_COUNT\<close>; the cast is erased
  at run time.\<close>

definition numCopies_of :: "entity \<Rightarrow> jsval" where
  "numCopies_of target = js_or (get_prop (ent_properties target) ''copy_count'') (JNum DEFAULT_COPY_COUNT)"

text \<open>\<^verbatim>\<open>`${target.properties.label || 'Entity'} - Copy ${i + 1}`\<close>\<close>

definition copyLabel :: "entity \<Rightarrow> nat \<Rightarrow> string" where
  "copyLabel target i =
     js_to_string (js_or (get_prop (ent_properties target) ''label'') (JStr ''Entity''))
       @ '' - Copy '' @ show_nat (i + 1)"

text \<open>\<^verbatim>\<open>mixEntityClass ? (i % 2 === 0 ? 'canonical' : 'mention') : undefined\<close>\<close>

definition entityClass_of :: "bool \<Rightarrow> nat \<Rightarrow> jsval" where
  "entityClass_of mixEntityClass i =
     (if mixEntityClass then (if i mod 2 = 0 then JStr ''canonical'' else JStr ''mention'')
      else JUndefined)"

text \<open>
  The object literal of the copy's properties: the target's properties spread first,
  then the overriding keys in the order written, and \<^verbatim>\<open>entity_class\<close> only when
  \<^verbatim>\<open>entityClass && {...}\<close> is an object.
\<close>

definition copy_properties :: "job \<Rightarrow> entity \<Rightarrow> jsval \<Rightarrow> string \<Rightarrow> bool \<Rightarrow> nat \<Rightarrow> props" where
  "copy_properties jb target numCopies now mixEntityClass i =
     (let entityClass = entityClass_of mixEntityClass i;
          p0 = ent_properties target;
          p1 = AList.update ''label'' (JStr (copyLabel target i)) p0;
          p2 = AList.update ''copy_index'' (JNum (int i)) p1;
          p3 = AList.update ''copy_total'' numCopies p2;
          p4 = AList.update ''source_entity'' (JStr (ent_id target)) p3;
          p5 = AList.update ''created_by'' (JStr (agentId jb)) p4;
          p6 = AList.update ''created_at'' (JStr now) p5
      in if truthy entityClass then AList.update ''entity_class'' entityClass p6 else p6)"

text \<open>The body of \<^verbatim>\<open>POST /entities\<close> for copy \<open>i\<close>.\<close>

definition copy_request :: "job \<Rightarrow> entity \<Rightarrow> jsval \<Rightarrow> string \<Rightarrow> bool \<Rightarrow> nat \<Rightarrow> create_body" where
  "copy_request jb target numCopies now mixEntityClass i =
     \<lparr> cb_type = ent_type target,
       cb_collection = target_collection jb,
       cb_properties = copy_properties jb target numCopies now mixEntityClass i,
       cb_relationships =
         [\<lparr> predicate = ''copy_of'', peer = ent_id target, peer_type = ent_type target,
            peer_label = get_prop (ent_properties target) ''label'' \<rparr>] \<rparr>"

text \<open>The \<^verbatim>\<open>.then\<close> handler of the creation of copy \<open>i\<close>.\<close>

definition then_created :: "bool \<Rightarrow> nat \<Rightarrow> entity reply \<Rightarrow> job_error + copy_result" where
  "then_created mixEntityClass i r =
     (case data r of
        None \<Rightarrow> Inl (CreateCopyFailed (i + 1) (error r))
      | Some d \<Rightarrow>
          if error r \<noteq> None then Inl (CreateCopyFailed (i + 1) (error r))
          else Inr \<lparr> copy_id = ent_id d, entity_class = entityClass_of mixEntityClass i \<rparr>)"

text \<open>
  The loop \<^verbatim>\<open>for (let batchStart = 0; batchStart < numCopies; batchStart += BATCH_SIZE)\<close>,
  from \<open>batchStart\<close> on, with the copies pushed so far. It returns the thrown error or the
  final \<^verbatim>\<open>copies\<close>, the events in the order they happened, and the outside world.
\<close>

function create_batches ::
  "'w env \<Rightarrow> job \<Rightarrow> entity \<Rightarrow> bool \<Rightarrow> jsval \<Rightarrow> nat \<Rightarrow> copy_result list \<Rightarrow> 'w
     \<Rightarrow> (job_error + copy_result list) \<times> event list \<times> 'w" where
  "create_batches E jb target mixEntityClass numCopies batchStart copies w =
     (case to_number (StringToNumber E) numCopies of
        None \<Rightarrow> (Inr copies, [], w)
      | Some n \<Rightarrow>
          if int batchStart < n then
            let batchEnd = min (batchStart + BATCH_SIZE) (nat n);
                reqs = map (copy_request jb target numCopies (now_iso E w) mixEntityClass)
                         [batchStart..<batchEnd];
                b = await_batch (pick E) (api_POST_entities E)
                      (\<lambda>slot. then_created mixEntityClass (batchStart + slot)) reqs w;
                evs = map (\<lambda>(slot, q, r). Posted q r) (fst (snd b))
            in case fst b of
                 Inl e \<Rightarrow> (Inl e, evs, snd (snd b))
               | Inr batchResults \<Rightarrow>
                   let lg = Log ''info''
                              (''Created batch '' @ show_nat (batchStart div BATCH_SIZE + 1));
                       rest = create_batches E jb target mixEntityClass numCopies
                                (batchStart + BATCH_SIZE) (copies @ batchResults) (snd (snd b))
                   in (fst rest, evs @ lg # fst (snd rest), snd (snd rest))
          else (Inr copies, [], w))"
  by pat_completeness auto
termination
proof (relation "measure (\<lambda>(E, jb, target, mixEntityClass, numCopies, batchStart, copies, w).
         case to_number (StringToNumber E) numCopies of
           None \<Rightarrow> 0 | Some n \<Rightarrow> nat n - batchStart)", goal_cases)
  case 1
  show ?case by simp
next
  case 2
  then show ?case by (simp add: BATCH_SIZE_def)
qed

declare create_batches.simps [simp del]

text \<open>
  The back-link: read the target's tip, then add one \<^verbatim>\<open>has_copy\<close> relationship per
  copy with \<^verbatim>\<open>expect_tip\<close>. An error in a reply is logged; a request that rejects
  throws, since neither \<^verbatim>\<open>await\<close> is inside a \<^verbatim>\<open>try\<close>.
\<close>

definition has_copy_relationship :: "entity \<Rightarrow> copy_result \<times> nat \<Rightarrow> relationship" where
  "has_copy_relationship target ci =
     \<lparr> predicate = ''has_copy'', peer = copy_id (fst ci), peer_type = ent_type target,
       peer_label = JStr (copyLabel target (snd ci)) \<rparr>"

definition add_has_copy ::
  "'w env \<Rightarrow> entity \<Rightarrow> copy_result list \<Rightarrow> 'w \<Rightarrow> (job_error + unit) \<times> event list \<times> 'w" where
  "add_has_copy E target copies w =
     (let t = api_GET_tip E (ent_id target) w;
          ev0 = GotTip (ent_id target) (fst t)
      in case fst t of
           Inl thrown \<Rightarrow> (Inl (ApiRejected thrown), [ev0], snd t)
         | Inr tr \<Rightarrow>
             (case data tr of
                None \<Rightarrow>
                  (Inr (), [ev0, Log ''info'' ''Failed to get tip for original entity''], snd t)
              | Some tipData \<Rightarrow>
                  if error tr \<noteq> None then
                    (Inr (), [ev0, Log ''info'' ''Failed to get tip for original entity''], snd t)
                  else
                    let body = \<lparr> expect_tip = cid tipData,
                                  relationships_add =
                                    map (has_copy_relationship target)
                                      (zip copies [0..<length copies]) \<rparr>;
                        u = api_PUT_entity E (ent_id target) body (snd t);
                        ev1 = Updated (ent_id target) body (fst u)
                    in case fst u of
                         Inl thrown \<Rightarrow> (Inl (ApiRejected thrown), [ev0, ev1], snd u)
                       | Inr ur \<Rightarrow>
                           (Inr (),
                            [ev0, ev1]
                              @ (if error ur \<noteq> None
                                 then [Log ''info''
                                         ''Failed to add has_copy relationships to original'']
                                 else []),
                            snd u)))"

text \<open>The final \<^verbatim>\<open>copies.map(copy => ...)\<close> of both paths.\<close>

definition to_output :: "copy_result \<Rightarrow> Output" where
  "to_output copy =
     (if truthy (entity_class copy) then OutputItem (copy_id copy) (entity_class copy)
      else EntityId (copy_id copy))"

subsection \<open>Existing-copies mode\<close>

text \<open>The \<^verbatim>\<open>.then\<close> handler of the fetch of the copy \<^verbatim>\<open>rel.peer\<close>.\<close>

definition then_fetched :: "bool \<Rightarrow> string \<Rightarrow> entity reply \<Rightarrow> job_error + copy_result" where
  "then_fetched mixEntityClass rel_peer r =
     (case data r of
        None \<Rightarrow> Inl (FetchCopyFailed rel_peer (error r))
      | Some d \<Rightarrow>
          if error r \<noteq> None then Inl (FetchCopyFailed rel_peer (error r))
          else Inr \<lparr> copy_id = ent_id d,
                     entity_class = (if mixEntityClass
                                     then get_prop (ent_properties d) ''entity_class''
                                     else JUndefined) \<rparr>)"

text \<open>
  The loop over \<^verbatim>\<open>copyRelationships\<close> in batches; \<open>i < batchEnd \<le> length\<close> keeps every
  \<^verbatim>\<open>copyRelationships[i]\<close> in range.
\<close>

function fetch_batches ::
  "'w env \<Rightarrow> bool \<Rightarrow> relationship list \<Rightarrow> nat \<Rightarrow> copy_result list \<Rightarrow> 'w
     \<Rightarrow> (job_error + copy_result list) \<times> event list \<times> 'w" where
  "fetch_batches E mixEntityClass copyRelationships batchStart copies w =
     (if batchStart < length copyRelationships then
        let batchEnd = min (batchStart + BATCH_SIZE) (length copyRelationships);
            reqs = map (\<lambda>i. peer (copyRelationships ! i)) [batchStart..<batchEnd];
            b = await_batch (pick E) (api_GET_entity E)
                  (\<lambda>slot. then_fetched mixEntityClass (peer (copyRelationships ! (batchStart + slot))))
                  reqs w;
            evs = map (\<lambda>(slot, q, r). Fetched q r) (fst (snd b))
        in case fst b of
             Inl e \<Rightarrow> (Inl e, evs, snd (snd b))
           | Inr batchResults \<Rightarrow>
               let lg = Log ''info''
                          (''Fetched batch '' @ show_nat (batchStart div BATCH_SIZE + 1));
                   rest = fetch_batches E mixEntityClass copyRelationships
                            (batchStart + BATCH_SIZE) (copies @ batchResults) (snd (snd b))
               in (fst rest, evs @ lg # fst (snd rest), snd (snd rest))
      else (Inr copies, [], w))"
  by pat_completeness auto
termination
proof (relation "measure (\<lambda>(E, mixEntityClass, copyRelationships, batchStart, copies, w).
         length copyRelationships - batchStart)", goal_cases)
  case 1
  show ?case by simp
next
  case 2
  then show ?case by (simp add: BATCH_SIZE_def)
qed

declare fetch_batches.simps [simp del]

text \<open>\<^verbatim>\<open>entityWithRels.relationships?.filter(r => r.predicate === 'has_copy') || []\<close>\<close>

definition has_copy_relationships :: "entity \<Rightarrow> relationship list" where
  "has_copy_relationships entityWithRels =
     (case ent_relationships entityWithRels of
        None \<Rightarrow> []
      | Some rs \<Rightarrow> filter (\<lambda>r. predicate r = ''has_copy'') rs)"

definition processExistingCopies ::
  "'w env \<Rightarrow> job \<Rightarrow> entity \<Rightarrow> bool \<Rightarrow> 'w \<Rightarrow> (job_error + Output list) \<times> event list \<times> 'w" where
  "processExistingCopies E jb target mixEntityClass w =
     (let f = api_GET_entity E (ent_id target) w;
          ev0 = Fetched (ent_id target) (fst f)
      in case data (fst f) of
           None \<Rightarrow> (Inl (FetchWithRelationshipsFailed (ent_id target)), [ev0], snd f)
         | Some entityWithRels \<Rightarrow>
             if error (fst f) \<noteq> None
             then (Inl (FetchWithRelationshipsFailed (ent_id target)), [ev0], snd f)
             else
               let copyRelationships = has_copy_relationships entityWithRels
               in if length copyRelationships = 0
                  then (Inr [], [ev0, Log ''info'' ''No existing copies found''], snd f)
                  else
                    let fb = fetch_batches E mixEntityClass copyRelationships 0 [] (snd f);
                        evs = ev0 # Log ''info'' ''Using existing copies'' # fst (snd fb)
                    in case fst fb of
                         Inl e \<Rightarrow> (Inl e, evs, snd (snd fb))
                       | Inr copies \<Rightarrow>
                           (Inr (map to_output copies),
                            evs @ [Log ''success'' ''Scatter complete (using existing copies)''],
                            snd (snd fb)))"

subsection \<open>The entry point\<close>

definition processJob ::
  "'w env \<Rightarrow> job \<Rightarrow> 'w \<Rightarrow> (job_error + Output list) \<times> event list \<times> 'w" where
  "processJob E jb w =
     (let ft = fetchTarget E w
      in case fst ft of
           Inl msg \<Rightarrow> (Inl (FetchTargetFailed msg), [], snd ft)
         | Inr target \<Rightarrow>
             let useExistingCopies =
                   (get_prop (ent_properties target) ''use_existing_copies'' = JBool True);
                 mixEntityClass =
                   (get_prop (ent_properties target) ''mix_entity_class'' = JBool True);
                 ev0 = Log ''info'' ''Scatter worker starting''
             in if useExistingCopies then
                  let ex = processExistingCopies E jb target mixEntityClass (snd ft)
                  in (fst ex, ev0 # fst (snd ex), snd (snd ex))
                else
                  let numCopies = numCopies_of target;
                      ev1 = Log ''info'' ''Fetched target entity'';
                      cb = create_batches E jb target mixEntityClass numCopies 0 [] (snd ft)
                  in case fst cb of
                       Inl e \<Rightarrow> (Inl e, ev0 # ev1 # fst (snd cb), snd (snd cb))
                     | Inr copies \<Rightarrow>
                         let bl = add_has_copy E target copies (snd (snd cb));
                             evs = ev0 # ev1 # fst (snd cb) @ fst (snd bl)
                         in case fst bl of
                              Inl e \<Rightarrow> (Inl e, evs, snd (snd bl))
                            | Inr u \<Rightarrow>
                                (Inr (map to_output copies),
                                 evs @ [Log ''success'' ''Scatter complete''],
                                 snd (snd bl)))"

section \<open>Reading the trace\<close>

text \<open>The creation requests of a trace with their replies, in completion order.\<close>

fun posted :: "event list \<Rightarrow> (create_body \<times> entity reply) list" where
  "posted [] = []"
| "posted (Posted q r # evs) = (q, r) # posted evs"
| "posted (Log l m # evs) = posted evs"
| "posted (GotTip i r # evs) = posted evs"
| "posted (Updated i b r # evs) = posted evs"
| "posted (Fetched i r # evs) = posted evs"

text \<open>The entity fetches of a trace with their replies.\<close>

fun fetched :: "event list \<Rightarrow> (string \<times> entity reply) list" where
  "fetched [] = []"
| "fetched (Fetched i r # evs) = (i, r) # fetched evs"
| "fetched (Log l m # evs) = fetched evs"
| "fetched (Posted q r # evs) = fetched evs"
| "fetched (GotTip i r # evs) = fetched evs"
| "fetched (Updated i b r # evs) = fetched evs"

text \<open>The requests of the back-link: tip reads and conditional updates.\<close>

fun backlink_calls :: "event list \<Rightarrow> event list" where
  "backlink_calls [] = []"
| "backlink_calls (GotTip i r # evs) = GotTip i r # backlink_calls evs"
| "backlink_calls (Updated i b r # evs) = Updated i b r # backlink_calls evs"
| "backlink_calls (Log l m # evs) = backlink_calls evs"
| "backlink_calls (Posted q r # evs) = backlink_calls evs"
| "backlink_calls (Fetched i r # evs) = backlink_calls evs"

text \<open>The messages logged at a level.\<close>

fun logged :: "string \<Rightarrow> event list \<Rightarrow> string list" where
  "logged lvl [] = []"
| "logged lvl (Log l m # evs) = (if l = lvl then m # logged lvl evs else logged lvl evs)"
| "logged lvl (Posted q r # evs) = logged lvl evs"
| "logged lvl (GotTip i r # evs) = logged lvl evs"
| "logged lvl (Updated i b r # evs) = logged lvl evs"
| "logged lvl (Fetched i r # evs) = logged lvl evs"

text \<open>A reply the \<^verbatim>\<open>.then\<close> handlers accept: \<^verbatim>\<open>!(error || !data)\<close>.\<close>

definition reply_ok :: "'a reply \<Rightarrow> bool" where
  "reply_ok r = (data r \<noteq> None \<and> error r = None)"

text \<open>The indices the creation loop has still to cover from \<open>bs\<close> on.\<close>

definition batches_left :: "'w env \<Rightarrow> jsval \<Rightarrow> nat \<Rightarrow> nat" where
  "batches_left E numCopies bs =
     (case to_number (StringToNumber E) numCopies of None \<Rightarrow> 0 | Some n \<Rightarrow> nat n - bs)"

section \<open>A store for running the job\<close>

text \<open>
  A small deterministic outside world, used to run the job on concrete inputs. Its state
  counts the requests served; the request served at a count listed in \<open>fails\<close> is
  answered with an error. Created entities are named after the count, fetched ones are
  looked up in \<open>db\<close>, and of the requests in flight the last one issued completes first.
  No request rejects, and every string converts to NaN: no run below has a string as its
  \<^verbatim>\<open>copy_count\<close>.
\<close>

definition ok_reply :: "'a \<Rightarrow> 'a reply" where
  "ok_reply d = \<lparr> data = Some d, error = None \<rparr>"

definition err_reply :: "string \<Rightarrow> 'a reply" where
  "err_reply e = \<lparr> data = None, error = Some e \<rparr>"

definition demo_env :: "entity \<Rightarrow> entity list \<Rightarrow> nat list \<Rightarrow> nat env" where
  "demo_env target db fails =
     \<lparr> fetchTarget = (\<lambda>w. (Inr target, w)),
       api_POST_entities = (\<lambda>body w.
          (if w \<in> set fails then err_reply ''500''
           else ok_reply \<lparr> ent_id = ''c'' @ show_nat w, ent_type = cb_type body,
                           ent_properties = cb_properties body,
                           ent_relationships = Some (cb_relationships body) \<rparr>,
           Suc w)),
       api_GET_tip = (\<lambda>i w.
          (Inr (if w \<in> set fails then err_reply ''500'' else ok_reply \<lparr> cid = ''tip'' \<rparr>),
           Suc w)),
       api_PUT_entity = (\<lambda>i body w.
          (Inr (if w \<in> set fails then err_reply ''409'' else ok_reply ()), Suc w)),
       api_GET_entity = (\<lambda>i w.
          (if w \<in> set fails then err_reply ''500''
           else (case find (\<lambda>e. ent_id e = i) db of
                   None \<Rightarrow> err_reply ''404'' | Some e \<Rightarrow> ok_reply e),
           Suc w)),
       now_iso = (\<lambda>w. ''2026-01-01T00:00:00.000Z''),
       pick = (\<lambda>w n. n - 1),
       StringToNumber = (\<lambda>s. None) \<rparr>"

text \<open>
  The same world with a network that drops: the tip read or the update served at a count
  listed in \<open>drops\<close> rejects.
\<close>

definition demo_env_dropping :: "entity \<Rightarrow> entity list \<Rightarrow> nat list \<Rightarrow> nat list \<Rightarrow> nat env" where
  "demo_env_dropping target db fails drops =
     (demo_env target db fails)
       \<lparr> api_GET_tip := (\<lambda>i w.
            if w \<in> set drops then (Inl ''fetch failed'', Suc w)
            else api_GET_tip (demo_env target db fails) i w),
         api_PUT_entity := (\<lambda>i body w.
            if w \<in> set drops then (Inl ''fetch failed'', Suc w)
            else api_PUT_entity (demo_env target db fails) i body w) \<rparr>"

definition demo_job :: job where
  "demo_job = \<lparr> target_entity = ''t'', target_collection = ''col'', agentId = ''agent'',
                isWorkflow = False \<rparr>"

definition demo_target :: "props \<Rightarrow> entity" where
  "demo_target ps = \<lparr> ent_id = ''t'', ent_type = ''doc'', ent_properties = ps,
                       ent_relationships = None \<rparr>"

text \<open>
  A target in existing-copies mode with \<^verbatim>\<open>mix_entity_class\<close> set, and a store content for
  it: the target has two \<^verbatim>\<open>has_copy\<close> relationships with another relationship between
  them; the first copy is canonical, the second has the empty string as its
  \<^verbatim>\<open>entity_class\<close>.
\<close>

definition demo_existing_target :: entity where
  "demo_existing_target =
     demo_target [(''use_existing_copies'', JBool True), (''mix_entity_class'', JBool True),
                  (''copy_count'', JNum 7)]"

definition demo_db :: "entity list" where
  "demo_db =
     [demo_existing_target
        \<lparr> ent_relationships := Some
            [\<lparr> predicate = ''has_copy'', peer = ''x1'', peer_type = ''doc'', peer_label = JStr ''one'' \<rparr>,
             \<lparr> predicate = ''in'', peer = ''col'', peer_type = ''collection'', peer_label = JUndefined \<rparr>,
             \<lparr> predicate = ''has_copy'', peer = ''x2'', peer_type = ''doc'', peer_label = JStr ''two'' \<rparr>] \<rparr>,
      \<lparr> ent_id = ''x1'', ent_type = ''doc'', ent_properties = [(''entity_class'', JStr ''canonical'')],
        ent_relationships = Some [] \<rparr>,
      \<lparr> ent_id = ''x2'', ent_type = ''doc'', ent_properties = [(''entity_class'', JStr [])],
        ent_relationships = Some [] \<rparr>]"

section \<open>Requests in flight: what a batch does\<close>

lemma mset_remove_nth:
  "k < length xs \<Longrightarrow> add_mset (xs ! k) (mset (take k xs @ drop (Suc k) xs)) = mset xs"
proof -
  assume "k < length xs"
  then have "xs = take k xs @ xs ! k # drop (Suc k) xs" by (rule id_take_nth_drop)
  then have "mset xs = mset (take k xs @ xs ! k # drop (Suc k) xs)" by simp
  then show ?thesis by simp
qed

lemma settle_all_mset:
  "mset (map (\<lambda>(slot, q, r). (slot, q)) (fst (settle_all pk exec pending w))) = mset pending"
proof (induction pk exec pending w rule: settle_all.induct)
  case (1 pk exec pending w)
  show ?case
  proof (cases "pending = []")
    case True
    then show ?thesis by (simp add: settle_all.simps)
  next
    case False
    let ?k = "pk w (length pending) mod length pending"
    from False have k: "?k < length pending" by simp
    have ih: "mset (map (\<lambda>(slot, q, r). (slot, q))
        (fst (settle_all pk exec (take ?k pending @ drop (Suc ?k) pending)
           (snd (exec (snd (pending ! ?k)) w)))))
       = mset (take ?k pending @ drop (Suc ?k) pending)"
      using "1.IH" [OF False refl refl refl refl] .
    show ?thesis
      apply (subst settle_all.simps)
      using False ih mset_remove_nth [OF k]
      by (simp add: Let_def)
  qed
qed

lemma settle_all_world:
  "snd (settle_all pk exec pending w)
     = foldl (\<lambda>w q. snd (exec q w)) w (map (\<lambda>(slot, q, r). q) (fst (settle_all pk exec pending w)))"
proof (induction pk exec pending w rule: settle_all.induct)
  case (1 pk exec pending w)
  show ?case
  proof (cases "pending = []")
    case True
    then show ?thesis by (simp add: settle_all.simps)
  next
    case False
    let ?k = "pk w (length pending) mod length pending"
    note ih = "1.IH" [OF False refl refl refl refl]
    show ?thesis
      apply (subst (1 2) settle_all.simps)
      using False ih
      by (simp add: Let_def)
  qed
qed


lemma insort_key_map:
  "insort_key f (g x) (map g xs) = map g (insort_key (\<lambda>y. f (g y)) x xs)"
  by (induction xs) simp_all

lemma sort_key_map:
  "sort_key f (map g xs) = map g (sort_key (\<lambda>y. f (g y)) xs)"
  by (induction xs) (simp_all add: insort_key_map)

lemma rejections_Nil_iff: "rejections xs = [] \<longleftrightarrow> (\<forall>x \<in> set xs. \<exists>v. snd x = Inr v)"
  by (induction xs rule: rejections.induct) auto

lemma rejections_mem: "e \<in> set (rejections xs) \<longleftrightarrow> (\<exists>x \<in> set xs. snd x = Inl e)"
  by (induction xs rule: rejections.induct) auto

lemma fulfilled_map_Inr: "rejections xs = [] \<Longrightarrow> map Inr (fulfilled xs) = map snd xs"
  by (induction xs rule: rejections.induct) auto

lemma sorted_slots_unique:
  fixes P :: "(nat \<times> 'q) list"
  assumes ms: "mset P = mset (enumerate 0 reqs)" and so: "sorted (map fst P)"
  shows "P = enumerate 0 reqs"
proof -
  let ?E = "enumerate 0 reqs"
  have dE: "distinct (map fst ?E)" by simp
  have "mset (map fst P) = mset (map fst ?E)" using ms by (metis mset_map)
  then have dP: "distinct (map fst P)" using dE by (metis mset_eq_imp_distinct_iff)
  have sE: "sorted (map fst ?E)" by simp
  have st: "set P = set ?E" using ms by (metis mset_eq_setD)
  have "inj_on fst (set ?E)"
    using dE distinct_map [of fst ?E] by blast
  then have inj: "inj_on fst (set P \<union> set ?E)"
    using st by simp
  show ?thesis
    by (rule map_sorted_distinct_set_unique [OF inj so dP sE dE st])
qed


lemma settled_in_slot_order:
  fixes dn :: "(nat \<times> 'q \<times> 'r) list"
  assumes dn: "dn = fst (settle_all pk exec (enumerate 0 reqs) w)"
  shows "\<exists>rs. length rs = length reqs
            \<and> sort_key fst dn = zip [0..<length reqs] (zip reqs rs)"
proof -
  let ?D = "sort_key fst dn"
  let ?proj = "\<lambda>(slot, q, r). (slot, q)" 
  let ?n = "length reqs"
  have "mset (map ?proj ?D) = mset (map ?proj dn)" by simp
  then have ms: "mset (map ?proj ?D) = mset (enumerate 0 reqs)"
    using settle_all_mset [of pk exec "enumerate 0 reqs" w] dn by simp
  have e: "map fst (map ?proj ?D) = map fst ?D" by (simp add: case_prod_beta)
  have "sorted (map fst ?D)" by (rule sorted_sort_key)
  with e have "sorted (map fst (map ?proj ?D))" by (simp only:)
  then have pe: "map ?proj ?D = enumerate 0 reqs" using ms by (rule sorted_slots_unique [rotated])
  then have len: "length ?D = ?n" by (metis length_map length_enumerate)
  have "?D = zip [0..<?n] (zip reqs (map (\<lambda>x. snd (snd x)) ?D))"
  proof (rule nth_equalityI)
    show "length ?D = length (zip [0..<?n] (zip reqs (map (\<lambda>x. snd (snd x)) ?D)))"
      using len by simp
  next
    fix i assume i: "i < length ?D"
    then have "map ?proj ?D ! i = enumerate 0 reqs ! i" using pe by simp
    then have "?proj (?D ! i) = (i, reqs ! i)" using i len by (simp add: nth_enumerate_eq)
    then show "?D ! i = zip [0..<?n] (zip reqs (map (\<lambda>x. snd (snd x)) ?D)) ! i"
      using i len by (cases "?D ! i") simp
  qed
  then show ?thesis using len by (intro exI [of _ "map (\<lambda>x. snd (snd x)) ?D"]) simp
qed

lemma promise_all_Inr:
  assumes "promise_all xs = Inr vs"
  shows "map Inr vs = map snd (sort_key fst xs)"
proof -
  from assms have nil: "rejections xs = []" and vs: "vs = fulfilled (sort_key fst xs)"
    by (auto simp: promise_all_def split: list.splits)
  from nil have "\<forall>x \<in> set xs. \<exists>v. snd x = Inr v" by (simp only: rejections_Nil_iff)
  then have "\<forall>x \<in> set (sort_key fst xs). \<exists>v. snd x = Inr v" by simp
  then have "rejections (sort_key fst xs) = []" by (simp only: rejections_Nil_iff)
  then show ?thesis unfolding vs by (rule fulfilled_map_Inr)
qed

lemma promise_all_Inl:
  assumes "promise_all xs = Inl e"
  shows "\<exists>x \<in> set xs. snd x = Inl e"
proof -
  from assms obtain es where "rejections xs = e # es"
    by (auto simp: promise_all_def split: list.splits)
  then have "e \<in> set (rejections xs)" by simp
  then show ?thesis by (simp only: rejections_mem)
qed

lemma await_batch_result:
  "fst (await_batch pk exec handler reqs w)
     = promise_all (map (\<lambda>(slot, q, r). (slot, handler slot r))
         (fst (settle_all pk exec (enumerate 0 reqs) w)))"
  by (simp add: await_batch_def Let_def)

lemma await_batch_done:
  "fst (snd (await_batch pk exec handler reqs w)) = fst (settle_all pk exec (enumerate 0 reqs) w)"
  by (simp add: await_batch_def Let_def)

lemma await_batch_snd:
  "snd (snd (await_batch pk exec handler reqs w)) = snd (settle_all pk exec (enumerate 0 reqs) w)"
  by (simp add: await_batch_def Let_def)

lemma await_batch_shape:
  assumes ab: "await_batch pk exec handler reqs w = (res, dn, w')"
  shows "\<exists>rs. length rs = length reqs
            \<and> mset dn = mset (zip [0..<length reqs] (zip reqs rs))
            \<and> (case res of
                 Inr vs \<Rightarrow> map Inr vs = map (\<lambda>(k, r). handler k r) (zip [0..<length reqs] rs)
               | Inl e \<Rightarrow> \<exists>k < length reqs. handler k (rs ! k) = Inl e)"
proof -
  let ?n = "length reqs"
  let ?h = "\<lambda>(slot, q, r). (slot, handler slot r)"
  have dn: "dn = fst (settle_all pk exec (enumerate 0 reqs) w)"
    using await_batch_done [of pk exec handler reqs w] by (simp only: ab fst_conv snd_conv)
  have res: "res = promise_all (map ?h dn)"
    using await_batch_result [of pk exec handler reqs w]
    by (simp only: ab fst_conv snd_conv dn)
  from settled_in_slot_order [OF dn] obtain rs where
    len: "length rs = ?n" and D: "sort_key fst dn = zip [0..<?n] (zip reqs rs)" by blast
  let ?Z = "zip [0..<?n] (zip reqs rs)"
  have "mset (sort_key fst dn) = mset dn" by (rule mset_sort)
  then have ms: "mset dn = mset ?Z" by (simp only: D)
  have fh: "(\<lambda>y. fst (?h y)) = fst" by (auto simp: fun_eq_iff)
  have "sort_key fst (map ?h dn) = map ?h (sort_key fst dn)"
    using sort_key_map [of fst ?h dn] by (simp only: fh)
  then have srt: "sort_key fst (map ?h dn) = map ?h ?Z"
    using D by (simp only:)
  have hz: "map snd (map ?h ?Z) = map (\<lambda>(k, r). handler k r) (zip [0..<?n] rs)"
    using len by (intro nth_equalityI) simp_all
  have cs: "case res of
          Inr vs \<Rightarrow> map Inr vs = map (\<lambda>(k, r). handler k r) (zip [0..<?n] rs)
        | Inl e \<Rightarrow> \<exists>k < ?n. handler k (rs ! k) = Inl e"
  proof (cases res)
    case (Inr vs)
    then have "promise_all (map ?h dn) = Inr vs" using res by simp
    then have "map Inr vs = map snd (sort_key fst (map ?h dn))" by (rule promise_all_Inr)
    then have "map Inr vs = map (\<lambda>(k, r). handler k r) (zip [0..<?n] rs)"
      by (simp only: srt hz)
    then show ?thesis using Inr by simp
  next
    case (Inl e)
    then have "promise_all (map ?h dn) = Inl e" using res by simp
    then have "\<exists>x \<in> set (map ?h dn). snd x = Inl e" by (rule promise_all_Inl)
    then obtain x where x: "x \<in> set (map ?h dn)" and xe: "snd x = Inl e" ..
    have "set (sort_key fst (map ?h dn)) = set (map ?h dn)" by (rule set_sort)
    then have "set (map ?h dn) = set (map ?h ?Z)" by (simp only: srt)
    with x have "x \<in> ?h ` set ?Z" by simp
    then obtain y where y: "y \<in> set ?Z" and xy: "x = ?h y" by blast
    from y obtain k where k: "k < ?n" and yk: "y = (k, reqs ! k, rs ! k)"
      unfolding set_zip using len by auto
    from xy yk xe have "handler k (rs ! k) = Inl e" by simp
    with k have "\<exists>k < ?n. handler k (rs ! k) = Inl e" by blast
    then show ?thesis using Inl by simp
  qed
  show ?thesis
    by (rule exI [of _ rs]) (intro conjI len ms cs)
qed

lemma await_batch_world:
  assumes ab: "await_batch pk exec handler reqs w = (res, dn, w')"
  shows "w' = foldl (\<lambda>w q. snd (exec q w)) w (map (\<lambda>(slot, q, r). q) dn)"
proof -
  have "dn = fst (settle_all pk exec (enumerate 0 reqs) w)"
    using await_batch_done [of pk exec handler reqs w] by (simp only: ab fst_conv snd_conv)
  moreover have "w' = snd (settle_all pk exec (enumerate 0 reqs) w)"
    using await_batch_snd [of pk exec handler reqs w] by (simp only: ab fst_conv snd_conv)
  ultimately show ?thesis
    using settle_all_world [of pk exec "enumerate 0 reqs" w] by (simp only:)
qed

section \<open>The creation loop\<close>

lemma posted_append: "posted (xs @ ys) = posted xs @ posted ys"
  by (induction xs rule: posted.induct) simp_all

lemma posted_map_Posted: "posted (map (\<lambda>(slot, q, r). Posted q r) dn) = map (\<lambda>(slot, q, r). (q, r)) dn"
  by (induction dn) (auto)

lemma create_batches_stop:
  assumes "to_number (StringToNumber E) numCopies = None
           \<or> (\<exists>n. to_number (StringToNumber E) numCopies = Some n \<and> \<not> int batchStart < n)"
  shows "create_batches E jb target mix numCopies batchStart copies w = (Inr copies, [], w)"
  using assms by (subst create_batches.simps) auto

lemma create_batches_reject:
  assumes "to_number (StringToNumber E) numCopies = Some n" and "int batchStart < n"
    and "await_batch (pick E) (api_POST_entities E)
           (\<lambda>slot. then_created mix (batchStart + slot))
           (map (copy_request jb target numCopies (now_iso E w) mix)
              [batchStart..<min (batchStart + BATCH_SIZE) (nat n)]) w = (Inl e, dn, w1)"
  shows "create_batches E jb target mix numCopies batchStart copies w
           = (Inl e, map (\<lambda>(slot, q, r). Posted q r) dn, w1)"
  using assms by (subst create_batches.simps) (simp add: Let_def)

lemma create_batches_next:
  assumes "to_number (StringToNumber E) numCopies = Some n" and "int batchStart < n"
    and "await_batch (pick E) (api_POST_entities E)
           (\<lambda>slot. then_created mix (batchStart + slot))
           (map (copy_request jb target numCopies (now_iso E w) mix)
              [batchStart..<min (batchStart + BATCH_SIZE) (nat n)]) w = (Inr vs, dn, w1)"
    and "create_batches E jb target mix numCopies (batchStart + BATCH_SIZE) (copies @ vs) w1
           = (res, evs, w')"
  shows "create_batches E jb target mix numCopies batchStart copies w
           = (res,
              map (\<lambda>(slot, q, r). Posted q r) dn
                @ Log ''info'' (''Created batch '' @ show_nat (batchStart div BATCH_SIZE + 1)) # evs,
              w')"
  using assms by (subst create_batches.simps) (simp add: Let_def)


lemma drop_slots:
  assumes "length reqs = c" and "length rs = c"
  shows "map (\<lambda>(slot, q, r). (q, r)) (zip [0..<c] (zip reqs rs)) = zip reqs rs"
  using assms by (intro nth_equalityI) simp_all

lemma shift_slots:
  assumes "length rs = c"
  shows "map (\<lambda>(k, r). f (b + k) r) (zip [0..<c] rs) = map (\<lambda>(i, r). f i r) (zip [b..<b + c] rs)"
  using assms by (intro nth_equalityI) simp_all

lemma zip_replicate_upt:
  "map (g x) [a..<a + c] = map (\<lambda>(y, i). g y i) (zip (replicate c x) [a..<a + c])"
  by (intro nth_equalityI) simp_all

lemma create_batches_trace:
  assumes n: "to_number (StringToNumber E) numCopies = Some n"
    and run: "create_batches E jb target mix numCopies bs copies w = (res, evs, w')"
  shows "\<exists>nows rs.
           length nows = length rs \<and> length rs \<le> nat n - bs
         \<and> mset (posted evs)
             = mset (zip (map (\<lambda>(now, i). copy_request jb target numCopies now mix i)
                            (zip nows [bs..<bs + length rs])) rs)
         \<and> (case res of
               Inr out \<Rightarrow>
                 length rs = nat n - bs
                 \<and> (\<exists>news. out = copies @ news
                      \<and> map Inr news
                          = map (\<lambda>(i, r). then_created mix i r) (zip [bs..<bs + length rs] rs))
             | Inl e \<Rightarrow> \<exists>j < length rs. then_created mix (bs + j) (rs ! j) = Inl e)"
  using run
proof (induction "nat n - bs" arbitrary: bs copies w res evs w' rule: less_induct)
  case less
  let ?cr = "\<lambda>(now, i). copy_request jb target numCopies now mix i"
  let ?tc = "\<lambda>(i, r). then_created mix i r"
  show ?case
  proof (cases "int bs < n")
    case False
    then have "create_batches E jb target mix numCopies bs copies w = (Inr copies, [], w)"
      using n by (intro create_batches_stop) simp
    with less.prems have "res = Inr copies" and "evs = []" by simp_all
    moreover from False have "nat n - bs = 0" by simp
    ultimately show ?thesis by simp
  next
    case True
    define c where "c = min (bs + BATCH_SIZE) (nat n) - bs"
    define m' where "m' = nat n - (bs + BATCH_SIZE)"
    define now where "now = now_iso E w"
    define reqs where "reqs = map (copy_request jb target numCopies now mix) [bs..<bs + c]"
    have be: "min (bs + BATCH_SIZE) (nat n) = bs + c"
      using True by (simp add: c_def BATCH_SIZE_def)
    have m: "nat n - bs = c + m'"
      using True by (simp add: c_def m'_def BATCH_SIZE_def)
    have cm: "m' = 0 \<or> c = BATCH_SIZE"
      by (simp add: c_def m'_def BATCH_SIZE_def) linarith
    have dec: "m' < nat n - bs"
      using True by (simp add: m'_def BATCH_SIZE_def)
    have lr: "length reqs = c" by (simp add: reqs_def)
    obtain res1 dn w1 where ab: "await_batch (pick E) (api_POST_entities E)
           (\<lambda>slot. then_created mix (bs + slot)) reqs w = (res1, dn, w1)"
      by (rule prod_cases3)
    have ab': "await_batch (pick E) (api_POST_entities E)
           (\<lambda>slot. then_created mix (bs + slot))
           (map (copy_request jb target numCopies (now_iso E w) mix)
              [bs..<min (bs + BATCH_SIZE) (nat n)]) w = (res1, dn, w1)"
      using ab by (simp only: reqs_def now_def be)
    from await_batch_shape [OF ab] obtain rs1 where
      r1: "length rs1 = length reqs"
      and ms1: "mset dn = mset (zip [0..<length reqs] (zip reqs rs1))"
      and vs0: "case res1 of
                 Inr vs \<Rightarrow> map Inr vs = map (\<lambda>(k, r). then_created mix (bs + k) r)
                                (zip [0..<length reqs] rs1)
               | Inl e \<Rightarrow> \<exists>k < length reqs. then_created mix (bs + k) (rs1 ! k) = Inl e"
      by blast
    have r1c: "length rs1 = c" using r1 lr by simp
    have reqs: "reqs = map ?cr (zip (replicate c now) [bs..<bs + c])"
      unfolding reqs_def
      by (rule zip_replicate_upt [of "\<lambda>now. copy_request jb target numCopies now mix"])
    have "mset (map (\<lambda>(slot, q, r). (q, r)) dn)
            = mset (map (\<lambda>(slot, q, r). (q, r)) (zip [0..<length reqs] (zip reqs rs1)))"
      by (simp only: mset_map ms1)
    also have "\<dots> = mset (zip reqs rs1)"
      by (simp only: drop_slots [OF refl r1])
    finally have p1: "mset (posted (map (\<lambda>(slot, q, r). Posted q r) dn))
            = mset (zip (map ?cr (zip (replicate c now) [bs..<bs + c])) rs1)"
      by (simp only: posted_map_Posted reqs [symmetric])
    show ?thesis
    proof (cases res1)
      case (Inl e)
      have "create_batches E jb target mix numCopies bs copies w
                   = (Inl e, map (\<lambda>(slot, q, r). Posted q r) dn, w1)"
        by (rule create_batches_reject [OF n True ab' [unfolded Inl]])
      with less.prems have res: "res = Inl e"
        and evs: "evs = map (\<lambda>(slot, q, r). Posted q r) dn" by simp_all
      have a: "length (replicate c now) = length rs1" using r1c by simp
      have b: "length rs1 \<le> nat n - bs" using r1c m by simp
      have c: "mset (posted evs)
                 = mset (zip (map ?cr (zip (replicate c now) [bs..<bs + length rs1])) rs1)"
        unfolding evs r1c by (rule p1)
      have "\<exists>j < length rs1. then_created mix (bs + j) (rs1 ! j) = Inl e"
        using vs0 Inl r1 by simp
      then have d: "case res of
               Inr out \<Rightarrow>
                 length rs1 = nat n - bs
                 \<and> (\<exists>news. out = copies @ news
                      \<and> map Inr news = map ?tc (zip [bs..<bs + length rs1] rs1))
             | Inl e \<Rightarrow> \<exists>j < length rs1. then_created mix (bs + j) (rs1 ! j) = Inl e"
        unfolding res by simp
      show ?thesis
        by (rule exI [of _ "replicate c now"], rule exI [of _ rs1]) (intro conjI a b c d)
    next
      case (Inr vs)
      obtain res2 evs2 w2 where rest:
        "create_batches E jb target mix numCopies (bs + BATCH_SIZE) (copies @ vs) w1
           = (res2, evs2, w2)"
        by (rule prod_cases3)
      have "create_batches E jb target mix numCopies bs copies w
              = (res2, map (\<lambda>(slot, q, r). Posted q r) dn
                   @ Log ''info'' (''Created batch '' @ show_nat (bs div BATCH_SIZE + 1)) # evs2, w2)"
        by (rule create_batches_next [OF n True ab' [unfolded Inr] rest])
      with less.prems have res2: "res2 = res"
        and evs: "evs = map (\<lambda>(slot, q, r). Posted q r) dn
                   @ Log ''info'' (''Created batch '' @ show_nat (bs div BATCH_SIZE + 1)) # evs2"
        by simp_all
      from less.hyps [OF dec [unfolded m'_def] rest [unfolded res2]]
      obtain nows2 rs2 where
        l1: "length nows2 = length rs2" and l2: "length rs2 \<le> m'"
        and ms2: "mset (posted evs2)
             = mset (zip (map ?cr (zip nows2 [bs + BATCH_SIZE..<bs + BATCH_SIZE + length rs2])) rs2)"
        and cs2: "case res of
               Inr out \<Rightarrow>
                 length rs2 = m'
                 \<and> (\<exists>news. out = (copies @ vs) @ news
                      \<and> map Inr news
                          = map ?tc (zip [bs + BATCH_SIZE..<bs + BATCH_SIZE + length rs2] rs2))
             | Inl e \<Rightarrow> \<exists>j < length rs2. then_created mix (bs + BATCH_SIZE + j) (rs2 ! j) = Inl e"
        unfolding m'_def by blast
      define k2 where "k2 = length rs2"
      have ck: "k2 = 0 \<or> c = BATCH_SIZE" using cm l2 by (auto simp: k2_def)
      have vs: "map Inr vs = map (\<lambda>(k, r). then_created mix (bs + k) r) (zip [0..<c] rs1)"
        using vs0 Inr lr by simp
      have idx2: "[bs + BATCH_SIZE..<bs + BATCH_SIZE + k2] = [bs + c..<bs + c + k2]"
        using ck by (elim disjE) simp_all
      have idx: "[bs..<bs + (c + k2)] = [bs..<bs + c] @ [bs + c..<bs + c + k2]"
        using upt_add_eq_append [of bs "bs + c" k2] by (simp add: add.assoc)
      have vs': "map Inr vs = map ?tc (zip [bs..<bs + c] rs1)"
        using vs by (simp only: shift_slots [OF r1c, of "then_created mix" bs])
      let ?nows = "replicate c now @ nows2"
      let ?rs = "rs1 @ rs2"
      have len: "length ?rs = c + k2" using r1c by (simp add: k2_def)
      have a: "length ?nows = length ?rs" using l1 r1c by simp
      have b: "length ?rs \<le> nat n - bs" using r1c l2 m by simp
      have zz: "zip ?nows [bs..<bs + (c + k2)]
                  = zip (replicate c now) [bs..<bs + c] @ zip nows2 [bs + c..<bs + c + k2]"
        unfolding idx by simp
      have pe: "posted evs = posted (map (\<lambda>(slot, q, r). Posted q r) dn) @ posted evs2"
        unfolding evs by (simp add: posted_append)
      have zz2: "zip (map ?cr (zip ?nows [bs..<bs + (c + k2)])) ?rs
                  = zip (map ?cr (zip (replicate c now) [bs..<bs + c])) rs1
                    @ zip (map ?cr (zip nows2 [bs + c..<bs + c + k2])) rs2"
        unfolding zz using r1c by simp
      have c: "mset (posted evs)
                 = mset (zip (map ?cr (zip ?nows [bs..<bs + length ?rs])) ?rs)"
        unfolding len zz2 pe using p1 ms2 [folded k2_def] by (simp only: mset_append idx2)
      have zz3: "zip [bs..<bs + (c + k2)] ?rs
                   = zip [bs..<bs + c] rs1 @ zip [bs + c..<bs + c + k2] rs2"
        unfolding idx using r1c by simp
      have d: "case res of
               Inr out \<Rightarrow>
                 length ?rs = nat n - bs
                 \<and> (\<exists>news. out = copies @ news
                      \<and> map Inr news = map ?tc (zip [bs..<bs + length ?rs] ?rs))
             | Inl e \<Rightarrow> \<exists>j < length ?rs. then_created mix (bs + j) (?rs ! j) = Inl e"
      proof (cases res)
        case (Inr out)
        with cs2 obtain news2 where k2m: "k2 = m'" and out: "out = (copies @ vs) @ news2"
          and nw2: "map Inr news2 = map ?tc (zip [bs + BATCH_SIZE..<bs + BATCH_SIZE + k2] rs2)"
          by (auto simp: k2_def)
        have "length ?rs = nat n - bs" using len k2m m by simp
        moreover have "out = copies @ (vs @ news2)" using out by simp
        moreover have "map Inr (vs @ news2) = map ?tc (zip [bs..<bs + length ?rs] ?rs)"
          unfolding len zz3 using vs' nw2 by (simp only: map_append idx2)
        ultimately show ?thesis unfolding Inr by auto
      next
        case (Inl e)
        with cs2 obtain j where j: "j < k2"
          and tj: "then_created mix (bs + BATCH_SIZE + j) (rs2 ! j) = Inl e"
          by (auto simp: k2_def)
        from j ck have cB: "c = BATCH_SIZE" by auto
        have "c + j < length ?rs" using j len by simp
        moreover have "then_created mix (bs + (c + j)) (?rs ! (c + j)) = Inl e"
          using tj r1c cB by (simp add: nth_append add.assoc)
        ultimately show ?thesis unfolding Inl by auto
      qed
      show ?thesis
        by (rule exI [of _ ?nows], rule exI [of _ ?rs]) (intro conjI a b c d)
    qed
  qed
qed

subsection \<open>Replies, events and the outside world\<close>

lemma settle_all_replies:
  "x \<in> set (fst (settle_all pk exec pending w)) \<Longrightarrow> \<exists>w0. snd (snd x) = fst (exec (fst (snd x)) w0)"
proof (induction pk exec pending w rule: settle_all.induct)
  case (1 pk exec pending w)
  show ?case
  proof (cases "pending = []")
    case True
    with "1.prems" show ?thesis by (simp add: settle_all.simps)
  next
    case False
    note ih = "1.IH" [OF False refl refl refl refl]
    from "1.prems" False show ?thesis
      apply (subst (asm) settle_all.simps)
      apply (simp add: Let_def)
      apply (erule disjE)
       apply auto[1]
      apply (erule ih)
      done
  qed
qed

lemma await_batch_replies:
  assumes "await_batch pk exec handler reqs w = (res, dn, w')" and "(s, q, r) \<in> set dn"
  shows "\<exists>w0. r = fst (exec q w0)"
proof -
  have "dn = fst (settle_all pk exec (enumerate 0 reqs) w)"
    using await_batch_done [of pk exec handler reqs w] by (simp only: assms(1) fst_conv snd_conv)
  with assms(2) settle_all_replies [of "(s, q, r)" pk exec "enumerate 0 reqs" w]
  show ?thesis by simp
qed

lemma create_batches_cases:
  assumes run: "create_batches E jb target mix numCopies bs copies w = (res, evs, w')"
  obtains (stop) "res = Inr copies" "evs = []" "w' = w"
  | (reject) n e dn where "to_number (StringToNumber E) numCopies = Some n" "int bs < n"
      "await_batch (pick E) (api_POST_entities E)
           (\<lambda>slot. then_created mix (bs + slot))
           (map (copy_request jb target numCopies (now_iso E w) mix)
              [bs..<min (bs + BATCH_SIZE) (nat n)]) w = (Inl e, dn, w')"
      "res = Inl e" "evs = map (\<lambda>(slot, q, r). Posted q r) dn"
  | (step) n vs dn w1 evs2 where "to_number (StringToNumber E) numCopies = Some n" "int bs < n"
      "await_batch (pick E) (api_POST_entities E)
           (\<lambda>slot. then_created mix (bs + slot))
           (map (copy_request jb target numCopies (now_iso E w) mix)
              [bs..<min (bs + BATCH_SIZE) (nat n)]) w = (Inr vs, dn, w1)"
      "create_batches E jb target mix numCopies (bs + BATCH_SIZE) (copies @ vs) w1 = (res, evs2, w')"
      "evs = map (\<lambda>(slot, q, r). Posted q r) dn
                @ Log ''info'' (''Created batch '' @ show_nat (bs div BATCH_SIZE + 1)) # evs2"
proof (cases "to_number (StringToNumber E) numCopies")
  case None
  then have "create_batches E jb target mix numCopies bs copies w = (Inr copies, [], w)"
    by (intro create_batches_stop) simp
  with run stop show ?thesis by simp
next
  case (Some n)
  show ?thesis
  proof (cases "int bs < n")
    case False
    then have "create_batches E jb target mix numCopies bs copies w = (Inr copies, [], w)"
      using Some by (intro create_batches_stop) simp
    with run stop show ?thesis by simp
  next
    case True
    obtain res1 dn w1 where ab: "await_batch (pick E) (api_POST_entities E)
           (\<lambda>slot. then_created mix (bs + slot))
           (map (copy_request jb target numCopies (now_iso E w) mix)
              [bs..<min (bs + BATCH_SIZE) (nat n)]) w = (res1, dn, w1)"
      by (rule prod_cases3)
    show ?thesis
    proof (cases res1)
      case (Inl e)
      from create_batches_reject [OF Some True ab [unfolded Inl]] run
      have "res = Inl e" "evs = map (\<lambda>(slot, q, r). Posted q r) dn" "w' = w1" by simp_all
      with ab Inl Some True show ?thesis by (intro reject) simp_all
    next
      case (Inr vs)
      obtain res2 evs2 w2 where rest:
        "create_batches E jb target mix numCopies (bs + BATCH_SIZE) (copies @ vs) w1
           = (res2, evs2, w2)"
        by (rule prod_cases3)
      from create_batches_next [OF Some True ab [unfolded Inr] rest] run
      have "res = res2" "w' = w2" "evs = map (\<lambda>(slot, q, r). Posted q r) dn
                @ Log ''info'' (''Created batch '' @ show_nat (bs div BATCH_SIZE + 1)) # evs2"
        by simp_all
      with ab Inr Some True rest show ?thesis by (intro step) simp_all
    qed
  qed
qed


lemma batches_left_less:
  "to_number (StringToNumber E) numCopies = Some n \<Longrightarrow> int bs < n
     \<Longrightarrow> batches_left E numCopies (bs + BATCH_SIZE) < batches_left E numCopies bs"
  by (simp add: batches_left_def BATCH_SIZE_def)

lemma create_batches_events:
  assumes "create_batches E jb target mix numCopies bs copies w = (res, evs, w')"
  shows "\<forall>ev \<in> set evs. (\<exists>q w0. ev = Posted q (fst (api_POST_entities E q w0)))
                          \<or> (\<exists>m. ev = Log ''info'' m)"
  using assms
proof (induction "batches_left E numCopies bs" arbitrary: bs copies w res evs w' rule: less_induct)
  case less
  from less.prems show ?case
  proof (cases rule: create_batches_cases)
    case stop
    then show ?thesis by simp
  next
    case (reject n e dn)
    have "\<And>s q r. (s, q, r) \<in> set dn \<Longrightarrow> \<exists>w0. r = fst (api_POST_entities E q w0)"
      by (rule await_batch_replies [OF reject(3)])
    then show ?thesis unfolding reject(5) by fastforce
  next
    case (step n vs dn w1 evs2)
    have a: "\<And>s q r. (s, q, r) \<in> set dn \<Longrightarrow> \<exists>w0. r = fst (api_POST_entities E q w0)"
      by (rule await_batch_replies [OF step(3)])
    have b: "\<forall>ev \<in> set evs2. (\<exists>q w0. ev = Posted q (fst (api_POST_entities E q w0)))
                          \<or> (\<exists>m. ev = Log ''info'' m)"
      by (rule less.hyps [OF batches_left_less [OF step(1,2)] step(4)])
    have c: "\<forall>ev \<in> set (map (\<lambda>(slot, q, r). Posted q r) dn).
               (\<exists>q w0. ev = Posted q (fst (api_POST_entities E q w0))) \<or> (\<exists>m. ev = Log ''info'' m)"
      using a by fastforce
    show ?thesis unfolding step(5) using b c by auto
  qed
qed

lemma create_batches_world:
  assumes "create_batches E jb target mix numCopies bs copies w = (res, evs, w')"
  shows "w' = foldl (\<lambda>w q. snd (api_POST_entities E q w)) w (map fst (posted evs))"
  using assms
proof (induction "batches_left E numCopies bs" arbitrary: bs copies w res evs w' rule: less_induct)
  case less
  have pm: "\<And>dn. map fst (posted (map (\<lambda>(slot, q, r). Posted q r) dn))
                  = map (\<lambda>(slot, q, r). q) dn"
    by (simp add: posted_map_Posted case_prod_beta)
  from less.prems show ?case
  proof (cases rule: create_batches_cases)
    case stop
    then show ?thesis by simp
  next
    case (reject n e dn)
    show ?thesis unfolding reject(5) pm by (rule await_batch_world [OF reject(3)])
  next
    case (step n vs dn w1 evs2)
    have a: "w1 = foldl (\<lambda>w q. snd (api_POST_entities E q w)) w (map (\<lambda>(slot, q, r). q) dn)"
      by (rule await_batch_world [OF step(3)])
    have b: "w' = foldl (\<lambda>w q. snd (api_POST_entities E q w)) w1 (map fst (posted evs2))"
      by (rule less.hyps [OF batches_left_less [OF step(1,2)] step(4)])
    show ?thesis unfolding step(5) using a b by (simp add: posted_append pm)
  qed
qed

section \<open>The entry point and the copy count\<close>

lemma get_prop_update:
  "get_prop (AList.update k v ps) k' = (if k' = k then v else get_prop ps k')"
  by (simp add: get_prop_def update_conv')

lemma get_prop_absent: "map_of ps k = None \<Longrightarrow> get_prop ps k = JUndefined"
  by (simp add: get_prop_def)

lemma processJob_generate:
  assumes ft: "fetchTarget E w = (Inr target, w0)"
    and gen: "get_prop (ent_properties target) ''use_existing_copies'' \<noteq> JBool True"
    and cb: "create_batches E jb target
               (get_prop (ent_properties target) ''mix_entity_class'' = JBool True)
               (numCopies_of target) 0 [] w0 = (res, evs, w1)"
  shows "processJob E jb w =
           (case res of
              Inl e \<Rightarrow>
                (Inl e,
                 Log ''info'' ''Scatter worker starting'' # Log ''info'' ''Fetched target entity'' # evs,
                 w1)
            | Inr copies \<Rightarrow>
                (case fst (add_has_copy E target copies w1) of
                   Inl e \<Rightarrow>
                     (Inl e,
                      Log ''info'' ''Scatter worker starting''
                        # Log ''info'' ''Fetched target entity'' # evs
                        @ fst (snd (add_has_copy E target copies w1)),
                      snd (snd (add_has_copy E target copies w1)))
                 | Inr u \<Rightarrow>
                     (Inr (map to_output copies),
                      Log ''info'' ''Scatter worker starting''
                        # Log ''info'' ''Fetched target entity'' # evs
                        @ fst (snd (add_has_copy E target copies w1))
                        @ [Log ''success'' ''Scatter complete''],
                      snd (snd (add_has_copy E target copies w1)))))"
  using ft gen cb by (simp add: processJob_def Let_def split: sum.splits)

lemma posted_Log_Cons: "posted (Log l m # evs) = posted evs"
  by simp

lemma posted_add_has_copy: "posted (fst (snd (add_has_copy E target copies w))) = []"
  by (simp add: add_has_copy_def Let_def split: option.splits sum.splits)

lemma fetched_add_has_copy: "fetched (fst (snd (add_has_copy E target copies w))) = []"
  by (simp add: add_has_copy_def Let_def split: option.splits sum.splits)

lemma processJob_generate_Inr:
  assumes ft: "fetchTarget E w = (Inr target, w0)"
    and gen: "get_prop (ent_properties target) ''use_existing_copies'' \<noteq> JBool True"
    and run: "processJob E jb w = (Inr outs, evs, w')"
  obtains copies cevs w1 where
    "create_batches E jb target
       (get_prop (ent_properties target) ''mix_entity_class'' = JBool True)
       (numCopies_of target) 0 [] w0 = (Inr copies, cevs, w1)"
    "outs = map to_output copies"
    "evs = Log ''info'' ''Scatter worker starting'' # Log ''info'' ''Fetched target entity'' # cevs
             @ fst (snd (add_has_copy E target copies w1)) @ [Log ''success'' ''Scatter complete'']"
    "posted evs = posted cevs"
proof -
  obtain res cevs w1 where cb: "create_batches E jb target
       (get_prop (ent_properties target) ''mix_entity_class'' = JBool True)
       (numCopies_of target) 0 [] w0 = (res, cevs, w1)"
    by (rule prod_cases3)
  note pj = processJob_generate [OF ft gen cb]
  show ?thesis
  proof (cases res)
    case (Inl e)
    with pj run show ?thesis by simp
  next
    case (Inr copies)
    show ?thesis
    proof (cases "fst (add_has_copy E target copies w1)")
      case (Inl e)
      with pj run Inr show ?thesis by simp
    next
      case (Inr u)
      with pj run \<open>res = Inr copies\<close> have o: "outs = map to_output copies"
        and e: "evs = Log ''info'' ''Scatter worker starting''
                  # Log ''info'' ''Fetched target entity'' # cevs
                  @ fst (snd (add_has_copy E target copies w1))
                  @ [Log ''success'' ''Scatter complete'']"
        by simp_all
      have pe: "posted evs = posted cevs"
        unfolding e by (simp add: posted_append posted_add_has_copy)
      show ?thesis
        by (rule that [OF cb [unfolded \<open>res = Inr copies\<close>] o e pe])
    qed
  qed
qed

lemma create_batches_count:
  assumes n: "to_number (StringToNumber E) numCopies = Some n"
    and run: "create_batches E jb target mix numCopies 0 [] w = (Inr copies, evs, w')"
  shows "length copies = nat n \<and> length (posted evs) = nat n"
proof -
  from create_batches_trace [OF n run] obtain nows rs news where
    l: "length nows = length rs" "length rs = nat n"
    and ms: "mset (posted evs)
             = mset (zip (map (\<lambda>(now, i). copy_request jb target numCopies now mix i)
                            (zip nows [0..<0 + length rs])) rs)"
    and out: "copies = [] @ news"
    and nw: "map Inr news = map (\<lambda>(i, r). then_created mix i r) (zip [0..<0 + length rs] rs)"
    by auto
  have "length (map Inr news :: (job_error + copy_result) list) = nat n"
    unfolding nw using l by simp
  then have a: "length copies = nat n" using out by simp
  have "size (mset (posted evs)) = nat n"
    unfolding ms using l by simp
  then have "length (posted evs) = nat n" by simp
  with a show ?thesis by simp
qed

text \<open>
  The number of outputs of a job of the generation path that returns: the copy count it
  read, as a number.
\<close>

lemma processJob_outputs_count:
  assumes ft: "fetchTarget E w = (Inr target, w0)"
    and gen: "get_prop (ent_properties target) ''use_existing_copies'' \<noteq> JBool True"
    and run: "processJob E jb w = (Inr outs, evs, w')"
    and n: "to_number (StringToNumber E) (numCopies_of target) = Some n"
  shows "length outs = nat n \<and> length (posted evs) = nat n"
proof -
  from processJob_generate_Inr [OF ft gen run] obtain copies cevs w1 where
    cb: "create_batches E jb target
       (get_prop (ent_properties target) ''mix_entity_class'' = JBool True)
       (numCopies_of target) 0 [] w0 = (Inr copies, cevs, w1)"
    and outs: "outs = map to_output copies" and pe: "posted evs = posted cevs"
    by blast
  from create_batches_count [OF n cb] show ?thesis by (simp add: outs pe)
qed

lemma numCopies_of_number:
  assumes "get_prop (ent_properties target) ''copy_count'' = JNum n"
  shows "numCopies_of target = JNum (if n = 0 then DEFAULT_COPY_COUNT else n)"
  using assms by (simp add: numCopies_of_def js_or_def)

text \<open>
  Claim C1 says that the copy count is the target's \<^verbatim>\<open>copy_count\<close> whenever that property
  is present and numeric, so that \<^verbatim>\<open>copy_count: 0\<close> yields 0 outputs and 0 record
  creations; the documentation of \<^verbatim>\<open>processJob\<close> says the same (the count is configurable,
  and \<^verbatim>\<open>Defaults to 3 if not specified\<close>). The code reads it with
  \<^verbatim>\<open>copy_count || DEFAULT_COPY_COUNT\<close>, and 0 is falsy: for a target whose \<^verbatim>\<open>copy_count\<close> is
  0 the copy count is 3, and the job, run against a store that accepts every request,
  issues three creations and returns three outputs.
\<close>

theorem C1_copy_count_zero_creates_three:
  "get_prop (ent_properties (demo_target [(''copy_count'', JNum 0)])) ''copy_count'' = JNum 0
   \<and> numCopies_of (demo_target [(''copy_count'', JNum 0)]) = JNum 3
   \<and> fst (processJob (demo_env (demo_target [(''copy_count'', JNum 0)]) [] []) demo_job 0)
       = Inr [EntityId ''c2'', EntityId ''c1'', EntityId ''c0'']
   \<and> length (posted (fst (snd (processJob
         (demo_env (demo_target [(''copy_count'', JNum 0)]) [] []) demo_job 0)))) = 3"
proof (intro conjI)
  show "get_prop (ent_properties (demo_target [(''copy_count'', JNum 0)])) ''copy_count'' = JNum 0"
    by code_simp
  show "numCopies_of (demo_target [(''copy_count'', JNum 0)]) = JNum 3"
    by code_simp
  show "fst (processJob (demo_env (demo_target [(''copy_count'', JNum 0)]) [] []) demo_job 0)
       = Inr [EntityId ''c2'', EntityId ''c1'', EntityId ''c0'']"
    by code_simp
  show "length (posted (fst (snd (processJob
         (demo_env (demo_target [(''copy_count'', JNum 0)]) [] []) demo_job 0)))) = 3"
    by code_simp
qed

subsection \<open>What the creation requests carry\<close>

lemma copy_request_copy_index:
  "get_prop (cb_properties (copy_request jb target numCopies now mix i)) ''copy_index'' = JNum (int i)"
  by (simp add: copy_request_def copy_properties_def Let_def get_prop_update)

lemma copy_request_copy_total:
  "get_prop (cb_properties (copy_request jb target numCopies now mix i)) ''copy_total'' = numCopies"
  by (simp add: copy_request_def copy_properties_def Let_def get_prop_update)

lemma copy_request_label:
  "get_prop (cb_properties (copy_request jb target numCopies now mix i)) ''label''
     = JStr (copyLabel target i)"
  by (simp add: copy_request_def copy_properties_def Let_def get_prop_update)

lemma copy_request_entity_class:
  "get_prop (cb_properties (copy_request jb target numCopies now mix i)) ''entity_class''
     = (if mix then (if even i then JStr ''canonical'' else JStr ''mention'')
        else get_prop (ent_properties target) ''entity_class'')"
  by (simp add: copy_request_def copy_properties_def Let_def get_prop_update entityClass_of_def
        even_iff_mod_2_eq_zero)

lemma copy_request_relationships:
  "cb_relationships (copy_request jb target numCopies now mix i)
     = [\<lparr> predicate = ''copy_of'', peer = ent_id target, peer_type = ent_type target,
          peer_label = get_prop (ent_properties target) ''label'' \<rparr>]"
  by (simp add: copy_request_def)

lemma then_created_Inr:
  "then_created mix i r = Inr c \<longleftrightarrow>
     reply_ok r \<and> (\<exists>d. data r = Some d \<and> c = \<lparr> copy_id = ent_id d, entity_class = entityClass_of mix i \<rparr>)"
  by (auto simp: then_created_def reply_ok_def split: option.splits)

lemma then_created_Inl:
  "then_created mix i r = Inl e \<longleftrightarrow> \<not> reply_ok r \<and> e = CreateCopyFailed (i + 1) (error r)"
  by (auto simp: then_created_def reply_ok_def split: option.splits)

lemma posted_mem: "(q, r) \<in> set (posted evs) \<longleftrightarrow> Posted q r \<in> set evs"
  by (induction evs rule: posted.induct) auto

text \<open>Every creation request of the loop is the request of an index it covers.\<close>

lemma create_batches_bodies:
  assumes n: "to_number (StringToNumber E) numCopies = Some n"
    and run: "create_batches E jb target mix numCopies bs copies w = (res, evs, w')"
    and mem: "(q, r) \<in> set (posted evs)"
  shows "\<exists>now i. bs \<le> i \<and> int i < n \<and> q = copy_request jb target numCopies now mix i"
proof -
  let ?cr = "\<lambda>(now, i). copy_request jb target numCopies now mix i"
  from create_batches_trace [OF n run] obtain nows rs where
    l: "length nows = length rs" "length rs \<le> nat n - bs"
    and ms: "mset (posted evs) = mset (zip (map ?cr (zip nows [bs..<bs + length rs])) rs)"
    by blast
  from ms have "set (posted evs) = set (zip (map ?cr (zip nows [bs..<bs + length rs])) rs)"
    by (rule mset_eq_setD)
  with mem have "(q, r) \<in> set (zip (map ?cr (zip nows [bs..<bs + length rs])) rs)" by simp
  then obtain j where j: "j < length rs"
    and q: "q = map ?cr (zip nows [bs..<bs + length rs]) ! j"
    unfolding set_zip by auto
  from j l have q': "q = copy_request jb target numCopies (nows ! j) mix (bs + j)"
    unfolding q by simp
  from j l have "int (bs + j) < n" by linarith
  with q' show ?thesis by (intro exI [of _ "nows ! j"] exI [of _ "bs + j"]) simp
qed

text \<open>On success the copy in slot \<open>i\<close> is the one the store returned for index \<open>i\<close>.\<close>

lemma create_batches_slots:
  assumes n: "to_number (StringToNumber E) numCopies = Some n"
    and run: "create_batches E jb target mix numCopies 0 [] w = (Inr copies, evs, w')"
    and i: "i < nat n"
  shows "\<exists>now r. (copy_request jb target numCopies now mix i, r) \<in> set (posted evs)
                 \<and> then_created mix i r = Inr (copies ! i)"
proof -
  let ?cr = "\<lambda>(now, i). copy_request jb target numCopies now mix i"
  from create_batches_trace [OF n run] obtain nows rs news where
    l: "length nows = length rs" "length rs = nat n"
    and ms: "mset (posted evs) = mset (zip (map ?cr (zip nows [0..<0 + length rs])) rs)"
    and out: "copies = [] @ news"
    and nw: "map Inr news = map (\<lambda>(i, r). then_created mix i r) (zip [0..<0 + length rs] rs)"
    by auto
  from ms have st: "set (posted evs) = set (zip (map ?cr (zip nows [0..<0 + length rs])) rs)"
    by (rule mset_eq_setD)
  have "zip (map ?cr (zip nows [0..<0 + length rs])) rs ! i
          = (copy_request jb target numCopies (nows ! i) mix i, rs ! i)"
    using i l by simp
  moreover have "i < length (zip (map ?cr (zip nows [0..<0 + length rs])) rs)"
    using i l by simp
  ultimately have a: "(copy_request jb target numCopies (nows ! i) mix i, rs ! i) \<in> set (posted evs)"
    unfolding st by (metis nth_mem)
  have "map Inr news ! i = (Inr (news ! i) :: job_error + copy_result)"
    using i l nw by (metis length_map nth_map length_zip min.idem diff_zero length_upt add_0)
  moreover have "map (\<lambda>(i, r). then_created mix i r) (zip [0..<0 + length rs] rs) ! i
                   = then_created mix i (rs ! i)"
    using i l by simp
  ultimately have "then_created mix i (rs ! i) = Inr (copies ! i)"
    using nw out by simp
  with a show ?thesis by blast
qed

lemma create_batches_all_ok:
  assumes n: "to_number (StringToNumber E) numCopies = Some n"
    and run: "create_batches E jb target mix numCopies 0 [] w = (Inr copies, evs, w')"
    and mem: "(q, r) \<in> set (posted evs)"
  shows "reply_ok r"
proof -
  let ?cr = "\<lambda>(now, i). copy_request jb target numCopies now mix i"
  from create_batches_trace [OF n run] obtain nows rs news where
    l: "length nows = length rs" "length rs = nat n"
    and ms: "mset (posted evs) = mset (zip (map ?cr (zip nows [0..<0 + length rs])) rs)"
    and nw: "map Inr news = map (\<lambda>(i, r). then_created mix i r) (zip [0..<0 + length rs] rs)"
    by auto
  from ms have "set (posted evs) = set (zip (map ?cr (zip nows [0..<0 + length rs])) rs)"
    by (rule mset_eq_setD)
  with mem obtain j where j: "j < length rs" and r: "r = rs ! j"
    unfolding set_zip by auto
  have ln: "length news = length rs"
    using arg_cong [OF nw, of length] by simp
  have "map Inr news ! j = (Inr (news ! j) :: job_error + copy_result)"
    using j ln by simp
  moreover have "map (\<lambda>(i, r). then_created mix i r) (zip [0..<0 + length rs] rs) ! j
                   = then_created mix j (rs ! j)"
    using j by simp
  ultimately have "then_created mix j r = Inr (news ! j)" using nw r by simp
  then show ?thesis by (simp add: then_created_Inr)
qed

subsection \<open>Copy count and indices\<close>

lemma create_batches_indices:
  assumes n: "to_number (StringToNumber E) numCopies = Some n"
    and run: "create_batches E jb target mix numCopies 0 [] w = (Inr copies, evs, w')"
  shows "mset (map (\<lambda>(q, r). get_prop (cb_properties q) ''copy_index'') (posted evs))
           = mset (map (\<lambda>i. JNum (int i)) [0..<nat n])"
proof -
  let ?cr = "\<lambda>(now, i). copy_request jb target numCopies now mix i"
  let ?ix = "\<lambda>(q, r). get_prop (cb_properties q) ''copy_index''"
  from create_batches_trace [OF n run] obtain nows rs where
    l: "length nows = length rs" "length rs = nat n"
    and ms: "mset (posted evs) = mset (zip (map ?cr (zip nows [0..<0 + length rs])) rs)"
    by auto
  have "mset (map ?ix (posted evs))
          = mset (map ?ix (zip (map ?cr (zip nows [0..<0 + length rs])) rs))"
    by (simp only: mset_map ms)
  also have "map ?ix (zip (map ?cr (zip nows [0..<0 + length rs])) rs)
               = map (\<lambda>i. JNum (int i)) [0..<nat n]"
    using l by (intro nth_equalityI) (simp_all add: copy_request_copy_index)
  finally show ?thesis .
qed

text \<open>
  Claim C2. For every copy count \<open>N\<close> given to the creation loop, a run of the loop that
  returns produces exactly \<open>N\<close> copies (none when \<open>N\<close> is negative) from exactly \<open>N\<close>
  creation requests, every one of them accepted by the store; the \<^verbatim>\<open>copy_index\<close> values of
  the created copies are \<open>0, ..., N - 1\<close>, each exactly once, and every created copy has
  \<^verbatim>\<open>copy_total = N\<close>.
\<close>

theorem C2_exactly_N_copies_indexed:
  assumes run: "create_batches E jb target mix (JNum N) 0 [] w = (Inr copies, evs, w')"
  shows "length copies = nat N
       \<and> length (posted evs) = nat N
       \<and> mset (map (\<lambda>(q, r). get_prop (cb_properties q) ''copy_index'') (posted evs))
           = mset (map (\<lambda>i. JNum (int i)) [0..<nat N])
       \<and> (\<lambda>(q, r). get_prop (cb_properties q) ''copy_index'') ` set (posted evs)
           = (\<lambda>i. JNum (int i)) ` {0..<nat N}
       \<and> (\<forall>(q, r) \<in> set (posted evs).
             get_prop (cb_properties q) ''copy_total'' = JNum N \<and> reply_ok r)"
proof -
  have n: "to_number (StringToNumber E) (JNum N) = Some N" by simp
  note cnt = create_batches_count [OF n run]
  note ix = create_batches_indices [OF n run]
  have st: "(\<lambda>(q, r). get_prop (cb_properties q) ''copy_index'') ` set (posted evs)
           = (\<lambda>i. JNum (int i)) ` {0..<nat N}"
    using mset_eq_setD [OF ix] by simp
  have tot: "\<forall>(q, r) \<in> set (posted evs).
             get_prop (cb_properties q) ''copy_total'' = JNum N \<and> reply_ok r"
  proof (clarify, intro conjI)
    fix q r assume mem: "(q, r) \<in> set (posted evs)"
    from create_batches_bodies [OF n run mem]
    show "get_prop (cb_properties q) ''copy_total'' = JNum N"
      by (auto simp: copy_request_copy_total)
    from create_batches_all_ok [OF n run mem] show "reply_ok r" .
  qed
  from cnt ix st tot show ?thesis by simp
qed

text \<open>
  The theorem run against the demo store for \<open>N = 2\<close>: the loop returns the two copies in
  index order, although the store served index 1 first.
\<close>

theorem C2_exactly_N_copies_indexed_witness:
  "fst (create_batches (demo_env (demo_target []) [] []) demo_job (demo_target []) False
          (JNum 2) 0 [] 0)
     = Inr [\<lparr> copy_id = ''c1'', entity_class = JUndefined \<rparr>,
            \<lparr> copy_id = ''c0'', entity_class = JUndefined \<rparr>]
   \<and> map (\<lambda>(q, r). get_prop (cb_properties q) ''copy_index'')
        (posted (fst (snd (create_batches (demo_env (demo_target []) [] []) demo_job
           (demo_target []) False (JNum 2) 0 [] 0))))
     = [JNum 1, JNum 0]
   \<and> length (posted (fst (snd (create_batches (demo_env (demo_target []) [] []) demo_job
           (demo_target []) False (JNum 2) 0 [] 0)))) = 2
   \<and> map (\<lambda>(q, r). (get_prop (cb_properties q) ''copy_total'', reply_ok r))
        (posted (fst (snd (create_batches (demo_env (demo_target []) [] []) demo_job
           (demo_target []) False (JNum 2) 0 [] 0))))
     = [(JNum 2, True), (JNum 2, True)]"
proof -
  let ?run = "create_batches (demo_env (demo_target []) [] []) demo_job (demo_target []) False
                (JNum 2) 0 [] 0"
  have out: "fst ?run = Inr [\<lparr> copy_id = ''c1'', entity_class = JUndefined \<rparr>,
                             \<lparr> copy_id = ''c0'', entity_class = JUndefined \<rparr>]"
    by code_simp
  have ix: "map (\<lambda>(q, r). get_prop (cb_properties q) ''copy_index'') (posted (fst (snd ?run)))
              = [JNum 1, JNum 0]"
    by code_simp
  have run: "?run = (Inr [\<lparr> copy_id = ''c1'', entity_class = JUndefined \<rparr>,
                          \<lparr> copy_id = ''c0'', entity_class = JUndefined \<rparr>],
                     fst (snd ?run), snd (snd ?run))"
    by (simp only: out [symmetric] prod.collapse)
  have tot: "map (\<lambda>(q, r). (get_prop (cb_properties q) ''copy_total'', reply_ok r))
               (posted (fst (snd ?run))) = [(JNum 2, True), (JNum 2, True)]"
    by code_simp
  from C2_exactly_N_copies_indexed [OF run]
  have "length (posted (fst (snd ?run))) = nat 2" by blast
  then have "length (posted (fst (snd ?run))) = 2" by simp
  with out ix tot show ?thesis by (intro conjI)
qed

subsection \<open>Failure of a creation\<close>

text \<open>The loop throws only the error of a creation request that the store refused.\<close>

lemma create_batches_Inl:
  assumes run: "create_batches E jb target mix numCopies bs cs w = (Inl e, evs, w')"
  shows "\<exists>now i r. (copy_request jb target numCopies now mix i, r) \<in> set (posted evs)
                   \<and> \<not> reply_ok r \<and> e = CreateCopyFailed (i + 1) (error r)"
proof -
  obtain n where n: "to_number (StringToNumber E) numCopies = Some n"
    using run by (cases rule: create_batches_cases) simp_all
  let ?cr = "\<lambda>(now, i). copy_request jb target numCopies now mix i"
  from create_batches_trace [OF n run] obtain nows rs j where
    l: "length nows = length rs"
    and ms: "mset (posted evs) = mset (zip (map ?cr (zip nows [bs..<bs + length rs])) rs)"
    and j: "j < length rs" and tj: "then_created mix (bs + j) (rs ! j) = Inl e"
    by auto
  have "j < length (zip (map ?cr (zip nows [bs..<bs + length rs])) rs)" using j l by simp
  then have "zip (map ?cr (zip nows [bs..<bs + length rs])) rs ! j
               \<in> set (zip (map ?cr (zip nows [bs..<bs + length rs])) rs)"
    by (rule nth_mem)
  moreover have "zip (map ?cr (zip nows [bs..<bs + length rs])) rs ! j
                   = (copy_request jb target numCopies (nows ! j) mix (bs + j), rs ! j)"
    using j l by simp
  ultimately have "(copy_request jb target numCopies (nows ! j) mix (bs + j), rs ! j)
                     \<in> set (posted evs)"
    using mset_eq_setD [OF ms] by simp
  moreover from tj have "\<not> reply_ok (rs ! j) \<and> e = CreateCopyFailed (bs + j + 1) (error (rs ! j))"
    by (simp add: then_created_Inl)
  ultimately show ?thesis by blast
qed

text \<open>With a store that accepts every creation the loop does not throw.\<close>

lemma create_batches_reliable:
  assumes ok: "\<And>q w0. reply_ok (fst (api_POST_entities E q w0))"
  shows "\<exists>copies evs w'.
           create_batches E jb target mix numCopies bs cs w = (Inr copies, evs, w')"
proof -
  obtain res evs w' where run: "create_batches E jb target mix numCopies bs cs w = (res, evs, w')"
    by (rule prod_cases3)
  show ?thesis
  proof (cases res)
    case (Inr copies)
    with run show ?thesis by blast
  next
    case (Inl e)
    from create_batches_Inl [OF run [unfolded Inl]] obtain q r where
      mem: "(q, r) \<in> set (posted evs)" and bad: "\<not> reply_ok r"
      by blast
    from mem have "Posted q r \<in> set evs" by (simp only: posted_mem)
    with create_batches_events [OF run] obtain w0 where
      "r = fst (api_POST_entities E q w0)" by fastforce
    with ok bad show ?thesis by simp
  qed
qed

section \<open>Entity classes and labels of the copies\<close>

text \<open>
  Claim C5, as amended. In a run of the creation loop that returns, for every index
  \<open>i\<close> in \<open>[0, N)\<close> a copy with \<^verbatim>\<open>copy_index = i\<close> was created, and every such copy carries
  \<^verbatim>\<open>entity_class = "canonical"\<close> for even \<open>i\<close> and \<^verbatim>\<open>"mention"\<close> for odd \<open>i\<close> when
  \<^verbatim>\<open>mixEntityClass\<close> is true. When \<^verbatim>\<open>mixEntityClass\<close> is false the loop adds no
  \<^verbatim>\<open>entity_class\<close> of its own: the copy has the \<^verbatim>\<open>entity_class\<close> of the target, which is
  spread into it (none when the target has none), and the copy's entry in \<^verbatim>\<open>copies\<close>
  carries none.
\<close>

theorem C5_entity_class_by_parity:
  assumes run: "create_batches E jb target mix (JNum N) 0 [] w = (Inr copies, evs, w')"
    and i: "i < nat N"
  shows "(\<exists>q r. (q, r) \<in> set (posted evs)
                \<and> get_prop (cb_properties q) ''copy_index'' = JNum (int i))
       \<and> (\<forall>(q, r) \<in> set (posted evs).
             get_prop (cb_properties q) ''copy_index'' = JNum (int i)
             \<longrightarrow> get_prop (cb_properties q) ''entity_class''
                  = (if mix then (if even i then JStr ''canonical'' else JStr ''mention'')
                     else get_prop (ent_properties target) ''entity_class''))
       \<and> entity_class (copies ! i)
           = (if mix then (if even i then JStr ''canonical'' else JStr ''mention'')
              else JUndefined)"
proof -
  have n: "to_number (StringToNumber E) (JNum N) = Some N" by simp
  from create_batches_slots [OF n run i] obtain now r where
    mem: "(copy_request jb target (JNum N) now mix i, r) \<in> set (posted evs)"
    and tc: "then_created mix i r = Inr (copies ! i)"
    by blast
  have a: "\<exists>q r. (q, r) \<in> set (posted evs)
                \<and> get_prop (cb_properties q) ''copy_index'' = JNum (int i)"
    using mem copy_request_copy_index by blast
  have b: "\<forall>(q, r) \<in> set (posted evs).
             get_prop (cb_properties q) ''copy_index'' = JNum (int i)
             \<longrightarrow> get_prop (cb_properties q) ''entity_class''
                  = (if mix then (if even i then JStr ''canonical'' else JStr ''mention'')
                     else get_prop (ent_properties target) ''entity_class'')"
  proof (clarify)
    fix q r
    assume m: "(q, r) \<in> set (posted evs)"
      and ix: "get_prop (cb_properties q) ''copy_index'' = JNum (int i)"
    from create_batches_bodies [OF n run m] obtain now' i' where
      q: "q = copy_request jb target (JNum N) now' mix i'" by blast
    from ix have "i' = i" unfolding q by (simp add: copy_request_copy_index)
    then show "get_prop (cb_properties q) ''entity_class''
                  = (if mix then (if even i then JStr ''canonical'' else JStr ''mention'')
                     else get_prop (ent_properties target) ''entity_class'')"
      unfolding q by (simp only: copy_request_entity_class)
  qed
  from tc have "entity_class (copies ! i) = entityClass_of mix i"
    by (auto simp: then_created_Inr)
  then have c: "entity_class (copies ! i)
           = (if mix then (if even i then JStr ''canonical'' else JStr ''mention'')
              else JUndefined)"
    by (simp add: entityClass_of_def even_iff_mod_2_eq_zero)
  from a b c show ?thesis by blast
qed

text \<open>
  The theorem run against the demo store with \<^verbatim>\<open>mixEntityClass\<close> true and \<open>N = 2\<close>, at
  index 1.
\<close>

theorem C5_entity_class_by_parity_witness:
  "fst (create_batches (demo_env (demo_target []) [] []) demo_job (demo_target []) True
          (JNum 2) 0 [] 0)
     = Inr [\<lparr> copy_id = ''c1'', entity_class = JStr ''canonical'' \<rparr>,
            \<lparr> copy_id = ''c0'', entity_class = JStr ''mention'' \<rparr>]
   \<and> (1::nat) < nat 2
   \<and> map (\<lambda>(q, r). (get_prop (cb_properties q) ''copy_index'',
                      get_prop (cb_properties q) ''entity_class''))
        (posted (fst (snd (create_batches (demo_env (demo_target []) [] []) demo_job
           (demo_target []) True (JNum 2) 0 [] 0))))
     = [(JNum 1, JStr ''mention''), (JNum 0, JStr ''canonical'')]
   \<and> entity_class ([\<lparr> copy_id = ''c1'', entity_class = JStr ''canonical'' \<rparr>,
                      \<lparr> copy_id = ''c0'', entity_class = JStr ''mention'' \<rparr>] ! 1)
       = JStr ''mention''"
proof -
  let ?run = "create_batches (demo_env (demo_target []) [] []) demo_job (demo_target []) True
                (JNum 2) 0 [] 0"
  have out: "fst ?run = Inr [\<lparr> copy_id = ''c1'', entity_class = JStr ''canonical'' \<rparr>,
                             \<lparr> copy_id = ''c0'', entity_class = JStr ''mention'' \<rparr>]"
    by code_simp
  have ps: "map (\<lambda>(q, r). (get_prop (cb_properties q) ''copy_index'',
                      get_prop (cb_properties q) ''entity_class'')) (posted (fst (snd ?run)))
              = [(JNum 1, JStr ''mention''), (JNum 0, JStr ''canonical'')]"
    by code_simp
  have run: "?run = (Inr [\<lparr> copy_id = ''c1'', entity_class = JStr ''canonical'' \<rparr>,
                          \<lparr> copy_id = ''c0'', entity_class = JStr ''mention'' \<rparr>],
                     fst (snd ?run), snd (snd ?run))"
    by (simp only: out [symmetric] prod.collapse)
  have i: "(1::nat) < nat 2" by simp
  from C5_entity_class_by_parity [OF run i]
  have "entity_class ([\<lparr> copy_id = ''c1'', entity_class = JStr ''canonical'' \<rparr>,
                       \<lparr> copy_id = ''c0'', entity_class = JStr ''mention'' \<rparr>] ! 1)
          = (if True then (if even (1::nat) then JStr ''canonical'' else JStr ''mention'')
             else JUndefined)"
    by (rule conjunct2 [THEN conjunct2])
  then have "entity_class ([\<lparr> copy_id = ''c1'', entity_class = JStr ''canonical'' \<rparr>,
                       \<lparr> copy_id = ''c0'', entity_class = JStr ''mention'' \<rparr>] ! 1)
          = JStr ''mention''"
    by simp
  with out i ps show ?thesis by (intro conjI)
qed

text \<open>
  Claim C5 as stated fails when the target has an \<^verbatim>\<open>entity_class\<close> of its own: with
  \<^verbatim>\<open>mix_entity_class\<close> unset, \<^verbatim>\<open>...target.properties\<close> carries it into the copy.
\<close>

theorem C5_inherited_entity_class_counterexample:
  "get_prop (ent_properties (demo_target [(''copy_count'', JNum 1),
                                           (''entity_class'', JStr ''canonical'')]))
     ''mix_entity_class'' \<noteq> JBool True
   \<and> fst (processJob (demo_env (demo_target [(''copy_count'', JNum 1),
             (''entity_class'', JStr ''canonical'')]) [] []) demo_job 0)
       = Inr [EntityId ''c0'']
   \<and> map (\<lambda>(q, r). get_prop (cb_properties q) ''entity_class'')
        (posted (fst (snd (processJob (demo_env (demo_target [(''copy_count'', JNum 1),
             (''entity_class'', JStr ''canonical'')]) [] []) demo_job 0))))
       = [JStr ''canonical'']"
proof (intro conjI)
  show "get_prop (ent_properties (demo_target [(''copy_count'', JNum 1),
                                           (''entity_class'', JStr ''canonical'')]))
     ''mix_entity_class'' \<noteq> JBool True"
    by code_simp
  show "fst (processJob (demo_env (demo_target [(''copy_count'', JNum 1),
             (''entity_class'', JStr ''canonical'')]) [] []) demo_job 0)
       = Inr [EntityId ''c0'']"
    by code_simp
  show "map (\<lambda>(q, r). get_prop (cb_properties q) ''entity_class'')
        (posted (fst (snd (processJob (demo_env (demo_target [(''copy_count'', JNum 1),
             (''entity_class'', JStr ''canonical'')]) [] []) demo_job 0))))
       = [JStr ''canonical'']"
    by code_simp
qed

text \<open>
  Claim C10. For a target whose \<^verbatim>\<open>label\<close> is absent or falsy, every creation request of
  the loop is for some index \<open>i\<close>, labels the copy \<^verbatim>\<open>Entity - Copy <i+1>\<close>, and attaches the
  single relationship \<^verbatim>\<open>copy_of\<close> whose \<^verbatim>\<open>peer_label\<close> is the target's raw \<^verbatim>\<open>label\<close>, with
  no fallback: \<^verbatim>\<open>undefined\<close> when the target has no label.
\<close>

theorem C10_label_fallback_not_in_peer_label:
  assumes run: "create_batches E jb target mix (JNum N) 0 [] w = (res, evs, w')"
    and lab: "\<not> truthy (get_prop (ent_properties target) ''label'')"
    and mem: "(q, r) \<in> set (posted evs)"
  shows "(\<exists>i. get_prop (cb_properties q) ''copy_index'' = JNum (int i)
             \<and> get_prop (cb_properties q) ''label'' = JStr (''Entity - Copy '' @ show_nat (i + 1)))
       \<and> cb_relationships q
           = [\<lparr> predicate = ''copy_of'', peer = ent_id target, peer_type = ent_type target,
                peer_label = get_prop (ent_properties target) ''label'' \<rparr>]
       \<and> (map_of (ent_properties target) ''label'' = None
            \<longrightarrow> map peer_label (cb_relationships q) = [JUndefined])"
proof -
  have n: "to_number (StringToNumber E) (JNum N) = Some N" by simp
  from create_batches_bodies [OF n run mem] obtain now i where
    q: "q = copy_request jb target (JNum N) now mix i" by blast
  have "copyLabel target i = ''Entity - Copy '' @ show_nat (i + 1)"
    using lab by (simp add: copyLabel_def js_or_def)
  then have a: "\<exists>i. get_prop (cb_properties q) ''copy_index'' = JNum (int i)
             \<and> get_prop (cb_properties q) ''label'' = JStr (''Entity - Copy '' @ show_nat (i + 1))"
    unfolding q by (intro exI [of _ i]) (simp add: copy_request_copy_index copy_request_label)
  have b: "cb_relationships q
           = [\<lparr> predicate = ''copy_of'', peer = ent_id target, peer_type = ent_type target,
                peer_label = get_prop (ent_properties target) ''label'' \<rparr>]"
    unfolding q by (rule copy_request_relationships)
  have c: "map_of (ent_properties target) ''label'' = None
            \<longrightarrow> map peer_label (cb_relationships q) = [JUndefined]"
    unfolding b by (simp add: get_prop_absent)
  from a b c show ?thesis by blast
qed

text \<open>The theorem run against the demo store for a target without a label.\<close>

theorem C10_label_fallback_not_in_peer_label_witness:
  "\<not> truthy (get_prop (ent_properties (demo_target [])) ''label'')
   \<and> map_of (ent_properties (demo_target [])) ''label'' = None
   \<and> map (\<lambda>(q, r). (get_prop (cb_properties q) ''label'', map peer_label (cb_relationships q)))
        (posted (fst (snd (create_batches (demo_env (demo_target []) [] []) demo_job
           (demo_target []) False (JNum 1) 0 [] 0))))
     = [(JStr ''Entity - Copy 1'', [JUndefined])]"
proof -
  let ?run = "create_batches (demo_env (demo_target []) [] []) demo_job (demo_target []) False
                (JNum 1) 0 [] 0"
  let ?q = "copy_request demo_job (demo_target []) (JNum 1) ''2026-01-01T00:00:00.000Z'' False 0"
  let ?r = "ok_reply \<lparr> ent_id = ''c0'', ent_type = cb_type ?q, ent_properties = cb_properties ?q,
                        ent_relationships = Some (cb_relationships ?q) \<rparr>"
  have lab: "\<not> truthy (get_prop (ent_properties (demo_target [])) ''label'')" by code_simp
  have ab: "map_of (ent_properties (demo_target [])) ''label'' = None" by code_simp
  have ps: "posted (fst (snd ?run)) = [(?q, ?r)]" by code_simp
  have run: "?run = (fst ?run, fst (snd ?run), snd (snd ?run))" by simp
  have mem: "(?q, ?r) \<in> set (posted (fst (snd ?run)))" by (simp only: ps) simp
  from C10_label_fallback_not_in_peer_label [OF run lab mem] ab
  have "map peer_label (cb_relationships ?q) = [JUndefined]" by blast
  moreover have "get_prop (cb_properties ?q) ''label'' = JStr ''Entity - Copy 1''" by code_simp
  ultimately show ?thesis using lab ab ps by simp
qed

section \<open>The fetch loop of existing-copies mode\<close>



lemma fetched_mem: "(i, r) \<in> set (fetched evs) \<longleftrightarrow> Fetched i r \<in> set evs"
  by (induction evs rule: fetched.induct) auto

lemma fetch_batches_stop:
  assumes "\<not> batchStart < length rels"
  shows "fetch_batches E mix rels batchStart copies w = (Inr copies, [], w)"
  using assms by (subst fetch_batches.simps) simp

lemma fetch_batches_reject:
  assumes "batchStart < length rels"
    and "await_batch (pick E) (api_GET_entity E)
           (\<lambda>slot. then_fetched mix (peer (rels ! (batchStart + slot))))
           (map (\<lambda>i. peer (rels ! i))
              [batchStart..<min (batchStart + BATCH_SIZE) (length rels)]) w = (Inl e, dn, w1)"
  shows "fetch_batches E mix rels batchStart copies w
           = (Inl e, map (\<lambda>(slot, q, r). Fetched q r) dn, w1)"
  using assms by (subst fetch_batches.simps) (simp add: Let_def)

lemma fetch_batches_next:
  assumes "batchStart < length rels"
    and "await_batch (pick E) (api_GET_entity E)
           (\<lambda>slot. then_fetched mix (peer (rels ! (batchStart + slot))))
           (map (\<lambda>i. peer (rels ! i))
              [batchStart..<min (batchStart + BATCH_SIZE) (length rels)]) w = (Inr vs, dn, w1)"
    and "fetch_batches E mix rels (batchStart + BATCH_SIZE) (copies @ vs) w1 = (res, evs, w')"
  shows "fetch_batches E mix rels batchStart copies w
           = (res,
              map (\<lambda>(slot, q, r). Fetched q r) dn
                @ Log ''info'' (''Fetched batch '' @ show_nat (batchStart div BATCH_SIZE + 1)) # evs,
              w')"
  using assms by (subst fetch_batches.simps) (simp add: Let_def)



subsection \<open>Events of the loops and the cases of existing-copies mode\<close>



lemma no_fetch_if_post_or_log:
  assumes "\<forall>ev \<in> set evs. (\<exists>q r. ev = Posted q r) \<or> (\<exists>l m. ev = Log l m)"
  shows "fetched evs = [] \<and> backlink_calls evs = []"
  using assms by (induction evs rule: posted.induct) auto


lemma create_batches_only_posts:
  assumes "create_batches E jb target mix numCopies bs copies w = (res, evs, w')"
  shows "fetched evs = [] \<and> backlink_calls evs = []"
proof (rule no_fetch_if_post_or_log, rule ballI)
  fix ev assume "ev \<in> set evs"
  with create_batches_events [OF assms]
  have "(\<exists>q w0. ev = Posted q (fst (api_POST_entities E q w0))) \<or> (\<exists>m. ev = Log ''info'' m)"
    by (rule bspec)
  then show "(\<exists>q r. ev = Posted q r) \<or> (\<exists>l m. ev = Log l m)"
    by (elim disjE exE) simp_all
qed


lemma logged_append: "logged lvl (xs @ ys) = logged lvl xs @ logged lvl ys"
  by (induction xs rule: logged.induct) simp_all





subsection \<open>Replies in the order of the relationships\<close>

lemma reply_ok_eq: "reply_ok (r :: 'a reply) \<longleftrightarrow> (\<exists>d. r = ok_reply d)"
  by (cases r) (auto simp: reply_ok_def ok_reply_def)

lemma all_ok_replies:
  assumes "\<forall>r \<in> set rs. reply_ok (r :: 'a reply)"
  shows "\<exists>ds. rs = map ok_reply ds"
  using assms
proof (induction rs)
  case Nil
  show ?case by simp
next
  case (Cons r rs)
  then obtain ds where "rs = map ok_reply ds" by auto
  moreover from Cons.prems obtain d where "r = ok_reply d" by (auto simp: reply_ok_eq)
  ultimately have "r # rs = map ok_reply (d # ds)" by simp
  then show ?case by (rule exI)
qed

lemma then_fetched_Inr:
  "then_fetched mix p r = Inr c \<longleftrightarrow>
     (\<exists>d. r = ok_reply d
          \<and> c = \<lparr> copy_id = ent_id d,
                  entity_class = (if mix then get_prop (ent_properties d) ''entity_class''
                                  else JUndefined) \<rparr>)"
  by (cases r) (auto simp: then_fetched_def ok_reply_def split: option.splits)

lemma then_fetched_Inl:
  "then_fetched mix p r = Inl e \<longleftrightarrow> \<not> reply_ok r \<and> e = FetchCopyFailed p (error r)"
  by (auto simp: then_fetched_def reply_ok_def split: option.splits)

lemma then_created_ok:
  "then_created mix i r = Inr c \<longleftrightarrow>
     (\<exists>d. r = ok_reply d \<and> c = \<lparr> copy_id = ent_id d, entity_class = entityClass_of mix i \<rparr>)"
  by (cases r) (auto simp: then_created_def ok_reply_def split: option.splits)



section \<open>Existing-copies mode\<close>






subsection \<open>Order of the outputs and falsy entity classes\<close>



text \<open>
  Claim C8. In existing-copies mode with \<^verbatim>\<open>mixEntityClass\<close> true, the copy built from a
  fetched entity carries that entity's \<^verbatim>\<open>entity_class\<close> as it is, and when that value is
  falsy, the empty string for instance, the classifier emits the bare identifier: it
  tests the truthiness of \<^verbatim>\<open>entity_class\<close>, not its presence.
\<close>

theorem C8_falsy_entity_class_is_bare:
  assumes fc: "then_fetched True rel_peer r = Inr copy"
    and dt: "data r = Some d"
    and falsy: "\<not> truthy (get_prop (ent_properties d) ''entity_class'')"
  shows "entity_class copy = get_prop (ent_properties d) ''entity_class''
       \<and> to_output copy = EntityId (ent_id d)"
  using fc dt falsy by (auto simp: then_fetched_Inr ok_reply_def to_output_def)

text \<open>
  The theorem at a fetched copy whose \<^verbatim>\<open>entity_class\<close> is the empty string, and the job
  on the demo store that fetches it: its second output is the bare identifier.
\<close>

theorem C8_falsy_entity_class_is_bare_witness:
  "map_of (ent_properties (demo_db ! 2)) ''entity_class'' = Some (JStr [])
   \<and> then_fetched True ''x2'' (ok_reply (demo_db ! 2))
       = Inr \<lparr> copy_id = ''x2'', entity_class = JStr [] \<rparr>
   \<and> to_output \<lparr> copy_id = ''x2'', entity_class = JStr [] \<rparr> = EntityId ''x2''
   \<and> fst (processJob (demo_env demo_existing_target demo_db []) demo_job 0)
       = Inr [OutputItem ''x1'' (JStr ''canonical''), EntityId ''x2'']"
proof -
  have p: "map_of (ent_properties (demo_db ! 2)) ''entity_class'' = Some (JStr [])" by code_simp
  have fc: "then_fetched True ''x2'' (ok_reply (demo_db ! 2))
              = Inr \<lparr> copy_id = ''x2'', entity_class = JStr [] \<rparr>"
    by code_simp
  have dt: "data (ok_reply (demo_db ! 2)) = Some (demo_db ! 2)" by (simp add: ok_reply_def)
  have falsy: "\<not> truthy (get_prop (ent_properties (demo_db ! 2)) ''entity_class'')" by code_simp
  have i: "ent_id (demo_db ! 2) = ''x2''" by code_simp
  have out: "fst (processJob (demo_env demo_existing_target demo_db []) demo_job 0)
               = Inr [OutputItem ''x1'' (JStr ''canonical''), EntityId ''x2'']"
    by code_simp
  from C8_falsy_entity_class_is_bare [OF fc dt falsy]
  have "to_output \<lparr> copy_id = ''x2'', entity_class = JStr [] \<rparr> = EntityId (ent_id (demo_db ! 2))"
    by (rule conjunct2)
  then have "to_output \<lparr> copy_id = ''x2'', entity_class = JStr [] \<rparr> = EntityId ''x2''"
    by (simp only: i)
  with p fc out show ?thesis by (intro conjI)
qed

section \<open>The classifier and the order of the outputs\<close>

text \<open>
  A successful run of the creation loop: the creation requests are those of the indices
  \<open>0, ..., n - 1\<close>, one each, and the copies are built from their replies in index order,
  whatever the order of completion.
\<close>

lemma create_batches_Inr:
  assumes n: "to_number (StringToNumber E) numCopies = Some n"
    and run: "create_batches E jb target mix numCopies 0 [] w = (Inr copies, evs, w')"
  shows "\<exists>nows ds. length nows = nat n \<and> length ds = nat n
            \<and> mset (posted evs)
                = mset (zip (map (\<lambda>(now, i). copy_request jb target numCopies now mix i)
                               (zip nows [0..<nat n])) (map ok_reply ds))
            \<and> copies = map (\<lambda>(i, d). \<lparr> copy_id = ent_id d, entity_class = entityClass_of mix i \<rparr>)
                          (zip [0..<nat n] ds)"
proof -
  let ?cr = "\<lambda>(now, i). copy_request jb target numCopies now mix i"
  let ?tc = "\<lambda>(i, r). then_created mix i r"
  let ?mk = "\<lambda>(i, d). \<lparr> copy_id = ent_id d, entity_class = entityClass_of mix i \<rparr>"
  from create_batches_trace [OF n run] obtain nows rs news where
    l: "length nows = length rs" "length rs = nat n"
    and ms: "mset (posted evs) = mset (zip (map ?cr (zip nows [0..<0 + length rs])) rs)"
    and out: "copies = [] @ news"
    and nw: "map Inr news = map ?tc (zip [0..<0 + length rs] rs)"
    by auto
  have ln: "length news = length rs" using arg_cong [OF nw, of length] by simp
  have each: "\<And>k. k < length rs \<Longrightarrow> then_created mix k (rs ! k) = Inr (news ! k)"
  proof -
    fix k assume k: "k < length rs"
    have "map Inr news ! k = (Inr (news ! k) :: job_error + copy_result)" using k ln by simp
    moreover have "map ?tc (zip [0..<0 + length rs] rs) ! k = then_created mix k (rs ! k)"
      using k by simp
    ultimately show "then_created mix k (rs ! k) = Inr (news ! k)" using nw by simp
  qed
  have "\<forall>r \<in> set rs. reply_ok r"
  proof
    fix r assume "r \<in> set rs"
    then obtain k where k: "k < length rs" and r: "r = rs ! k" by (auto simp: in_set_conv_nth)
    from each [OF k] show "reply_ok r" unfolding r by (auto simp: then_created_ok reply_ok_eq)
  qed
  then obtain ds where ds: "rs = map ok_reply ds" by (rule all_ok_replies [THEN exE])
  have ld: "length ds = nat n" using l ds by simp
  have ln': "length nows = nat n" using l by simp
  have cp: "copies = map ?mk (zip [0..<nat n] ds)"
  proof (rule nth_equalityI)
    show "length copies = length (map ?mk (zip [0..<nat n] ds))" using out ln l ld by simp
  next
    fix k assume "k < length copies"
    then have k: "k < length rs" using out ln by simp
    from each [OF k] have "then_created mix k (ok_reply (ds ! k)) = Inr (copies ! k)"
      using k ds out by simp
    then have "copies ! k = \<lparr> copy_id = ent_id (ds ! k), entity_class = entityClass_of mix k \<rparr>"
      by (auto simp: then_created_ok ok_reply_def)
    then show "copies ! k = map ?mk (zip [0..<nat n] ds) ! k" using k l ld by simp
  qed
  have ms': "mset (posted evs) = mset (zip (map ?cr (zip nows [0..<nat n])) (map ok_reply ds))"
    using ms unfolding l(2) add_0 unfolding ds .
  show ?thesis by (rule exI [of _ nows], rule exI [of _ ds]) (intro conjI ln' ld ms' cp)
qed

text \<open>
  Claim C6, as amended. The classifier maps a copy to the tagged object when its
  \<^verbatim>\<open>entity_class\<close> is truthy and to the bare identifier otherwise. In a job of the
  generation path that returns, the creation requests are those of the indices
  \<open>0, ..., n - 1\<close>, and the output at position \<open>i\<close> is built from the reply to the request
  of index \<open>i\<close>: tagged canonical or mention by the parity of \<open>i\<close> when
  \<^verbatim>\<open>mixEntityClass\<close> is true, and the bare identifier otherwise. This holds for every
  order in which the requests of a batch complete, the order being part of \<open>E\<close>.
\<close>

theorem C6_outputs_in_copy_index_order:
  assumes ft: "fetchTarget E w = (Inr target, w0)"
    and gen: "get_prop (ent_properties target) ''use_existing_copies'' \<noteq> JBool True"
    and n: "to_number (StringToNumber E) (numCopies_of target) = Some n"
    and run: "processJob E jb w = (Inr outs, evs, w')"
  shows "(\<forall>copy. to_output copy
            = (if truthy (entity_class copy) then OutputItem (copy_id copy) (entity_class copy)
               else EntityId (copy_id copy)))
       \<and> (\<exists>nows ds. length nows = nat n \<and> length ds = nat n
            \<and> mset (posted evs)
                = mset (zip (map (\<lambda>(now, i). copy_request jb target (numCopies_of target) now
                                    (get_prop (ent_properties target) ''mix_entity_class'' = JBool True) i)
                               (zip nows [0..<nat n])) (map ok_reply ds))
            \<and> outs = map (\<lambda>(i, d).
                        if get_prop (ent_properties target) ''mix_entity_class'' = JBool True
                        then OutputItem (ent_id d)
                               (if even i then JStr ''canonical'' else JStr ''mention'')
                        else EntityId (ent_id d))
                      (zip [0..<nat n] ds))"
proof -
  let ?mix = "get_prop (ent_properties target) ''mix_entity_class'' = JBool True"
  let ?cr = "\<lambda>(now, i). copy_request jb target (numCopies_of target) now ?mix i"
  let ?mk = "\<lambda>(i, d). \<lparr> copy_id = ent_id d, entity_class = entityClass_of ?mix i \<rparr>"
  let ?out = "\<lambda>(i :: nat, d). if ?mix
                   then OutputItem (ent_id d) (if even i then JStr ''canonical'' else JStr ''mention'')
                   else EntityId (ent_id d)"
  from processJob_generate_Inr [OF ft gen run] obtain copies cevs w1 where
    cb: "create_batches E jb target ?mix (numCopies_of target) 0 [] w0 = (Inr copies, cevs, w1)"
    and outs: "outs = map to_output copies" and pe: "posted evs = posted cevs"
    by blast
  from create_batches_Inr [OF n cb] obtain nows ds where
    l: "length nows = nat n" "length ds = nat n"
    and ms: "mset (posted cevs) = mset (zip (map ?cr (zip nows [0..<nat n])) (map ok_reply ds))"
    and cp: "copies = map ?mk (zip [0..<nat n] ds)"
    by blast
  have eq: "to_output \<circ> ?mk = ?out"
    by (auto simp: fun_eq_iff to_output_def entityClass_of_def even_iff_mod_2_eq_zero)
  have o: "outs = map ?out (zip [0..<nat n] ds)"
    unfolding outs cp map_map eq ..
  have a: "\<forall>copy. to_output copy
            = (if truthy (entity_class copy) then OutputItem (copy_id copy) (entity_class copy)
               else EntityId (copy_id copy))"
    by (simp add: to_output_def)
  have b: "\<exists>nows ds. length nows = nat n \<and> length ds = nat n
            \<and> mset (posted evs) = mset (zip (map ?cr (zip nows [0..<nat n])) (map ok_reply ds))
            \<and> outs = map ?out (zip [0..<nat n] ds)"
    by (rule exI [of _ nows], rule exI [of _ ds]) (intro conjI l ms [folded pe] o)
  from a b show ?thesis by (rule conjI)
qed

text \<open>
  The theorem run against the demo store for \<^verbatim>\<open>copy_count: 2\<close> with \<^verbatim>\<open>mix_entity_class\<close>:
  the request of index 1 completes first and gets the id \<^verbatim>\<open>c0\<close>, and the outputs are in
  index order.
\<close>

theorem C6_outputs_in_copy_index_order_witness:
  "fetchTarget (demo_env (demo_target [(''copy_count'', JNum 2), (''mix_entity_class'', JBool True)])
       [] []) 0
     = (Inr (demo_target [(''copy_count'', JNum 2), (''mix_entity_class'', JBool True)]), 0)
   \<and> get_prop (ent_properties (demo_target [(''copy_count'', JNum 2),
         (''mix_entity_class'', JBool True)])) ''use_existing_copies'' \<noteq> JBool True
   \<and> map (\<lambda>(q, r). (get_prop (cb_properties q) ''copy_index'', map_option ent_id (data r)))
        (posted (fst (snd (processJob (demo_env (demo_target [(''copy_count'', JNum 2),
           (''mix_entity_class'', JBool True)]) [] []) demo_job 0))))
       = [(JNum 1, Some ''c0''), (JNum 0, Some ''c1'')]
   \<and> fst (processJob (demo_env (demo_target [(''copy_count'', JNum 2),
           (''mix_entity_class'', JBool True)]) [] []) demo_job 0)
       = Inr [OutputItem ''c1'' (JStr ''canonical''), OutputItem ''c0'' (JStr ''mention'')]
   \<and> (\<exists>ds :: entity list. length ds = nat 2
          \<and> [OutputItem ''c1'' (JStr ''canonical''), OutputItem ''c0'' (JStr ''mention'')]
              = map (\<lambda>(i, d).
                        if get_prop (ent_properties (demo_target [(''copy_count'', JNum 2),
                             (''mix_entity_class'', JBool True)])) ''mix_entity_class'' = JBool True
                        then OutputItem (ent_id d)
                               (if even i then JStr ''canonical'' else JStr ''mention'')
                        else EntityId (ent_id d))
                      (zip [0..<nat 2] ds))"
proof -
  let ?T = "demo_target [(''copy_count'', JNum 2), (''mix_entity_class'', JBool True)]"
  let ?E = "demo_env ?T [] []"
  let ?outs = "[OutputItem ''c1'' (JStr ''canonical''), OutputItem ''c0'' (JStr ''mention'')]"
  have ft: "fetchTarget ?E 0 = (Inr ?T, 0)" by (simp add: demo_env_def)
  have gen: "get_prop (ent_properties ?T) ''use_existing_copies'' \<noteq> JBool True" by code_simp
  have n: "to_number (StringToNumber ?E) (numCopies_of ?T) = Some 2" by code_simp
  have ps: "map (\<lambda>(q, r). (get_prop (cb_properties q) ''copy_index'', map_option ent_id (data r)))
              (posted (fst (snd (processJob ?E demo_job 0))))
              = [(JNum 1, Some ''c0''), (JNum 0, Some ''c1'')]"
    by code_simp
  have out: "fst (processJob ?E demo_job 0) = Inr ?outs" by code_simp
  have run: "processJob ?E demo_job 0
               = (Inr ?outs, fst (snd (processJob ?E demo_job 0)),
                  snd (snd (processJob ?E demo_job 0)))"
    by (simp only: out [symmetric] prod.collapse)
  from C6_outputs_in_copy_index_order [OF ft gen n run]
  obtain nows ds where h: "length nows = nat 2 \<and> length ds = nat 2
            \<and> mset (posted (fst (snd (processJob ?E demo_job 0))))
                = mset (zip (map (\<lambda>(now, i). copy_request demo_job ?T (numCopies_of ?T) now
                                    (get_prop (ent_properties ?T) ''mix_entity_class'' = JBool True) i)
                               (zip nows [0..<nat 2])) (map ok_reply ds))
            \<and> ?outs = map (\<lambda>(i, d).
                        if get_prop (ent_properties ?T) ''mix_entity_class'' = JBool True
                        then OutputItem (ent_id d)
                               (if even i then JStr ''canonical'' else JStr ''mention'')
                        else EntityId (ent_id d))
                      (zip [0..<nat 2] ds)"
    by (elim conjE exE) (rule that, intro conjI, assumption+)
  have "\<exists>ds :: entity list. length ds = nat 2
          \<and> ?outs = map (\<lambda>(i, d).
                        if get_prop (ent_properties ?T) ''mix_entity_class'' = JBool True
                        then OutputItem (ent_id d)
                               (if even i then JStr ''canonical'' else JStr ''mention'')
                        else EntityId (ent_id d))
                      (zip [0..<nat 2] ds)"
  proof (intro exI conjI)
    show "length ds = nat 2" by (rule h [THEN conjunct2, THEN conjunct1])
    show "?outs = map (\<lambda>(i, d).
                        if get_prop (ent_properties ?T) ''mix_entity_class'' = JBool True
                        then OutputItem (ent_id d)
                               (if even i then JStr ''canonical'' else JStr ''mention'')
                        else EntityId (ent_id d))
                      (zip [0..<nat 2] ds)"
      by (rule h [THEN conjunct2, THEN conjunct2, THEN conjunct2])
  qed
  with ft gen ps out show ?thesis by (intro conjI)
qed

text \<open>
  Claim C6 as stated fails for a copy whose \<^verbatim>\<open>entity_class\<close> is present but falsy: in
  existing-copies mode the second copy of the demo store has the empty string as its
  \<^verbatim>\<open>entity_class\<close>, and the classifier emits its bare identifier.
\<close>

theorem C6_present_but_falsy_counterexample:
  "fst (fetch_batches (demo_env demo_existing_target demo_db []) True
          (has_copy_relationships (hd demo_db)) 0 [] 1)
     = Inr [\<lparr> copy_id = ''x1'', entity_class = JStr ''canonical'' \<rparr>,
            \<lparr> copy_id = ''x2'', entity_class = JStr [] \<rparr>]
   \<and> entity_class \<lparr> copy_id = ''x2'', entity_class = JStr [] \<rparr> \<noteq> JUndefined
   \<and> to_output \<lparr> copy_id = ''x2'', entity_class = JStr [] \<rparr> = EntityId ''x2''
   \<and> to_output \<lparr> copy_id = ''x2'', entity_class = JStr [] \<rparr> \<noteq> OutputItem ''x2'' (JStr [])
   \<and> fst (processJob (demo_env demo_existing_target demo_db []) demo_job 0)
       = Inr [OutputItem ''x1'' (JStr ''canonical''), EntityId ''x2'']"
proof (intro conjI)
  show "fst (fetch_batches (demo_env demo_existing_target demo_db []) True
          (has_copy_relationships (hd demo_db)) 0 [] 1)
     = Inr [\<lparr> copy_id = ''x1'', entity_class = JStr ''canonical'' \<rparr>,
            \<lparr> copy_id = ''x2'', entity_class = JStr [] \<rparr>]"
    by code_simp
  show "entity_class \<lparr> copy_id = ''x2'', entity_class = JStr [] \<rparr> \<noteq> JUndefined" by simp
  show "to_output \<lparr> copy_id = ''x2'', entity_class = JStr [] \<rparr> = EntityId ''x2''"
    by (simp add: to_output_def)
  show "to_output \<lparr> copy_id = ''x2'', entity_class = JStr [] \<rparr> \<noteq> OutputItem ''x2'' (JStr [])"
    by (simp add: to_output_def)
  show "fst (processJob (demo_env demo_existing_target demo_db []) demo_job 0)
       = Inr [OutputItem ''x1'' (JStr ''canonical''), EntityId ''x2'']"
    by code_simp
qed

section \<open>What the loops use of their collaborators\<close>

lemma create_batches_env:
  assumes s: "StringToNumber E' = StringToNumber E" and nw: "now_iso E' = now_iso E"
    and pk: "pick E' = pick E" and po: "api_POST_entities E' = api_POST_entities E"
  shows "create_batches E' jb target mix nc bs cs w = create_batches E jb target mix nc bs cs w"
proof (induction "batches_left E nc bs" arbitrary: bs cs w rule: less_induct)
  case less
  show ?case
  proof (cases "\<exists>n. to_number (StringToNumber E) nc = Some n \<and> int bs < n")
    case False
    then have a: "to_number (StringToNumber E) nc = None
           \<or> (\<exists>n. to_number (StringToNumber E) nc = Some n \<and> \<not> int bs < n)"
      by (cases "to_number (StringToNumber E) nc") auto
    then have b: "to_number (StringToNumber E') nc = None
           \<or> (\<exists>n. to_number (StringToNumber E') nc = Some n \<and> \<not> int bs < n)"
      by (simp only: s)
    show ?thesis
      by (simp only: create_batches_stop [OF a] create_batches_stop [OF b])
  next
    case True
    then obtain n where n: "to_number (StringToNumber E) nc = Some n" and lt: "int bs < n"
      by blast
    have n': "to_number (StringToNumber E') nc = Some n" using n by (simp only: s)
    obtain res1 dn w1 where ab: "await_batch (pick E) (api_POST_entities E)
           (\<lambda>slot. then_created mix (bs + slot))
           (map (copy_request jb target nc (now_iso E w) mix)
              [bs..<min (bs + BATCH_SIZE) (nat n)]) w = (res1, dn, w1)"
      by (rule prod_cases3)
    have ab': "await_batch (pick E') (api_POST_entities E')
           (\<lambda>slot. then_created mix (bs + slot))
           (map (copy_request jb target nc (now_iso E' w) mix)
              [bs..<min (bs + BATCH_SIZE) (nat n)]) w = (res1, dn, w1)"
      using ab by (simp only: nw pk po)
    show ?thesis
    proof (cases res1)
      case (Inl e)
      show ?thesis
        by (simp only: create_batches_reject [OF n lt ab [unfolded Inl]]
              create_batches_reject [OF n' lt ab' [unfolded Inl]])
    next
      case (Inr vs)
      obtain res2 evs2 w2 where rest:
        "create_batches E jb target mix nc (bs + BATCH_SIZE) (cs @ vs) w1 = (res2, evs2, w2)"
        by (rule prod_cases3)
      have rest': "create_batches E' jb target mix nc (bs + BATCH_SIZE) (cs @ vs) w1
                     = (res2, evs2, w2)"
        using less.hyps [OF batches_left_less [OF n lt], of "cs @ vs" w1] rest by simp
      show ?thesis
        by (simp only: create_batches_next [OF n lt ab [unfolded Inr] rest]
              create_batches_next [OF n' lt ab' [unfolded Inr] rest'])
    qed
  qed
qed

lemma fetch_batches_env:
  assumes pk: "pick E' = pick E" and ge: "api_GET_entity E' = api_GET_entity E"
  shows "fetch_batches E' mix rels bs cs w = fetch_batches E mix rels bs cs w"
proof (induction "length rels - bs" arbitrary: bs cs w rule: less_induct)
  case less
  show ?case
  proof (cases "bs < length rels")
    case False
    show ?thesis
      by (simp only: fetch_batches_stop [OF False])
  next
    case True
    obtain res1 dn w1 where ab: "await_batch (pick E) (api_GET_entity E)
           (\<lambda>slot. then_fetched mix (peer (rels ! (bs + slot))))
           (map (\<lambda>i. peer (rels ! i)) [bs..<min (bs + BATCH_SIZE) (length rels)]) w
         = (res1, dn, w1)"
      by (rule prod_cases3)
    have ab': "await_batch (pick E') (api_GET_entity E')
           (\<lambda>slot. then_fetched mix (peer (rels ! (bs + slot))))
           (map (\<lambda>i. peer (rels ! i)) [bs..<min (bs + BATCH_SIZE) (length rels)]) w
         = (res1, dn, w1)"
      using ab by (simp only: pk ge)
    show ?thesis
    proof (cases res1)
      case (Inl e)
      show ?thesis
        by (simp only: fetch_batches_reject [OF True ab [unfolded Inl]]
              fetch_batches_reject [OF True ab' [unfolded Inl]])
    next
      case (Inr vs)
      obtain res2 evs2 w2 where rest:
        "fetch_batches E mix rels (bs + BATCH_SIZE) (cs @ vs) w1 = (res2, evs2, w2)"
        by (rule prod_cases3)
      have dec: "length rels - (bs + BATCH_SIZE) < length rels - bs"
        using True by (simp add: BATCH_SIZE_def)
      have rest': "fetch_batches E' mix rels (bs + BATCH_SIZE) (cs @ vs) w1 = (res2, evs2, w2)"
        using less.hyps [OF dec, of "cs @ vs" w1] rest by simp
      show ?thesis
        by (simp only: fetch_batches_next [OF True ab [unfolded Inr] rest]
              fetch_batches_next [OF True ab' [unfolded Inr] rest'])
    qed
  qed
qed

lemma processExistingCopies_env:
  assumes pk: "pick E' = pick E" and ge: "api_GET_entity E' = api_GET_entity E"
  shows "processExistingCopies E' jb target mix w = processExistingCopies E jb target mix w"
  unfolding processExistingCopies_def ge fetch_batches_env [OF pk ge] ..

section \<open>The back-link\<close>

lemma processJob_fetch_failed:
  assumes "fetchTarget E w = (Inl msg, w0)"
  shows "processJob E jb w = (Inl (FetchTargetFailed msg), [], w0)"
  using assms by (simp add: processJob_def Let_def)

text \<open>What the back-link returns, by what its two requests do.\<close>

lemma add_has_copy_tip_rejected:
  assumes "fst (api_GET_tip E (ent_id target) w) = Inl thrown"
  shows "add_has_copy E target copies w
           = (Inl (ApiRejected thrown), [GotTip (ent_id target) (Inl thrown)],
              snd (api_GET_tip E (ent_id target) w))"
  using assms by (simp add: add_has_copy_def Let_def)

lemma add_has_copy_tip_failed:
  assumes "fst (api_GET_tip E (ent_id target) w) = Inr tr" and "\<not> reply_ok tr"
  shows "add_has_copy E target copies w
           = (Inr (),
              [GotTip (ent_id target) (Inr tr),
               Log ''info'' ''Failed to get tip for original entity''],
              snd (api_GET_tip E (ent_id target) w))"
  using assms
  by (cases "data tr") (simp_all add: add_has_copy_def Let_def reply_ok_def)

lemma add_has_copy_update_rejected:
  assumes "fst (api_GET_tip E (ent_id target) w) = Inr (ok_reply tipData)"
    and "fst (api_PUT_entity E (ent_id target)
                \<lparr> expect_tip = cid tipData,
                  relationships_add = map (has_copy_relationship target)
                                        (zip copies [0..<length copies]) \<rparr>
                (snd (api_GET_tip E (ent_id target) w))) = Inl thrown"
  shows "fst (add_has_copy E target copies w) = Inl (ApiRejected thrown)"
  using assms by (simp add: add_has_copy_def Let_def ok_reply_def)

lemma add_has_copy_update_replied:
  assumes "fst (api_GET_tip E (ent_id target) w) = Inr (ok_reply tipData)"
    and "fst (api_PUT_entity E (ent_id target)
                \<lparr> expect_tip = cid tipData,
                  relationships_add = map (has_copy_relationship target)
                                        (zip copies [0..<length copies]) \<rparr>
                (snd (api_GET_tip E (ent_id target) w))) = Inr ur"
  shows "fst (add_has_copy E target copies w) = Inr ()
       \<and> fst (snd (add_has_copy E target copies w))
           = [GotTip (ent_id target) (Inr (ok_reply tipData)),
              Updated (ent_id target)
                \<lparr> expect_tip = cid tipData,
                  relationships_add = map (has_copy_relationship target)
                                        (zip copies [0..<length copies]) \<rparr>
                (Inr ur)]
             @ (if error ur \<noteq> None
                then [Log ''info'' ''Failed to add has_copy relationships to original'']
                else [])"
  using assms by (simp add: add_has_copy_def Let_def ok_reply_def)

text \<open>
  When both requests of the back-link resolve, whatever their replies report, the
  back-link returns, and a job that has created its copies returns their outputs.
\<close>

lemma add_has_copy_resolved:
  assumes tip: "\<And>i w. \<exists>tr. fst (api_GET_tip E i w) = Inr tr"
    and put: "\<And>i body w. \<exists>ur. fst (api_PUT_entity E i body w) = Inr ur"
  shows "fst (add_has_copy E target copies w) = Inr ()"
proof -
  from tip obtain tr where t: "fst (api_GET_tip E (ent_id target) w) = Inr tr" by blast
  show ?thesis
  proof (cases "reply_ok tr")
    case False
    from add_has_copy_tip_failed [OF t False] show ?thesis by simp
  next
    case True
    then obtain tipData where tr: "tr = ok_reply tipData" by (auto simp: reply_ok_eq)
    let ?body = "\<lparr> expect_tip = cid tipData,
                    relationships_add = map (has_copy_relationship target)
                                          (zip copies [0..<length copies]) \<rparr>"
    from put obtain ur where
      u: "fst (api_PUT_entity E (ent_id target) ?body (snd (api_GET_tip E (ent_id target) w)))
            = Inr ur"
      by blast
    from add_has_copy_update_replied [OF t [unfolded tr] u] show ?thesis by simp
  qed
qed

lemma processJob_back_link_result:
  assumes ft: "fetchTarget E w = (Inr target, w0)"
    and gen: "get_prop (ent_properties target) ''use_existing_copies'' \<noteq> JBool True"
    and cb: "create_batches E jb target
               (get_prop (ent_properties target) ''mix_entity_class'' = JBool True)
               (numCopies_of target) 0 [] w0 = (Inr copies, cevs, w1)"
  shows "fst (processJob E jb w)
           = (case fst (add_has_copy E target copies w1) of
                Inl e \<Rightarrow> Inl e
              | Inr u \<Rightarrow> Inr (map to_output copies))"
  unfolding processJob_generate [OF ft gen cb]
  by (cases "fst (add_has_copy E target copies w1)") simp_all

lemma processJob_reported_back_link_failure_not_fatal:
  assumes ft: "fetchTarget E w = (Inr target, w0)"
    and gen: "get_prop (ent_properties target) ''use_existing_copies'' \<noteq> JBool True"
    and cb: "create_batches E jb target
               (get_prop (ent_properties target) ''mix_entity_class'' = JBool True)
               (numCopies_of target) 0 [] w0 = (Inr copies, cevs, w1)"
    and tip: "\<And>i w. \<exists>tr. fst (api_GET_tip E i w) = Inr tr"
    and put: "\<And>i body w. \<exists>ur. fst (api_PUT_entity E i body w) = Inr ur"
  shows "fst (processJob E jb w) = Inr (map to_output copies)"
  unfolding processJob_back_link_result [OF ft gen cb]
  by (simp add: add_has_copy_resolved [OF tip put])

text \<open>
  Claim C3 says that, once the copies are created, a failure to read the target's tip
  or a failure of the conditional update never fails the job; the code says so itself
  where it logs the update error (\<^verbatim>\<open>Don't fail the job - copies were created
  successfully\<close>). This holds of the failures that a reply reports. But both requests are
  awaited outside any \<^verbatim>\<open>try\<close>, so a tip read or an update that rejects throws out of
  \<^verbatim>\<open>processJob\<close>: against the demo store with \<^verbatim>\<open>copy_count: 1\<close> the copy is created, and
  the job fails when the tip read (the request served at count 1) or the update (at
  count 2) is dropped, where it returns the copy's output when these requests reply,
  with an error or without.
\<close>

theorem C3_rejected_back_link_request_fails_job:
  "map (\<lambda>(q, r). reply_ok r)
     (posted (fst (snd (processJob
        (demo_env_dropping (demo_target [(''copy_count'', JNum 1)]) [] [] [1]) demo_job 0))))
     = [True]
   \<and> fst (api_GET_tip (demo_env_dropping (demo_target [(''copy_count'', JNum 1)]) [] [] [1])
            ''t'' 1) = Inl ''fetch failed''
   \<and> fst (processJob (demo_env_dropping (demo_target [(''copy_count'', JNum 1)]) [] [] [1])
            demo_job 0)
       = Inl (ApiRejected ''fetch failed'')
   \<and> map (\<lambda>(q, r). reply_ok r)
        (posted (fst (snd (processJob
           (demo_env_dropping (demo_target [(''copy_count'', JNum 1)]) [] [] [2]) demo_job 0))))
       = [True]
   \<and> fst (processJob (demo_env_dropping (demo_target [(''copy_count'', JNum 1)]) [] [] [2])
            demo_job 0)
       = Inl (ApiRejected ''fetch failed'')
   \<and> fst (processJob (demo_env (demo_target [(''copy_count'', JNum 1)]) [] []) demo_job 0)
       = Inr [EntityId ''c0'']
   \<and> fst (processJob (demo_env (demo_target [(''copy_count'', JNum 1)]) [] [1]) demo_job 0)
       = Inr [EntityId ''c0'']
   \<and> fst (processJob (demo_env (demo_target [(''copy_count'', JNum 1)]) [] [2]) demo_job 0)
       = Inr [EntityId ''c0'']"
proof (intro conjI)
  show "map (\<lambda>(q, r). reply_ok r)
     (posted (fst (snd (processJob
        (demo_env_dropping (demo_target [(''copy_count'', JNum 1)]) [] [] [1]) demo_job 0))))
     = [True]"
    by code_simp
  show "fst (api_GET_tip (demo_env_dropping (demo_target [(''copy_count'', JNum 1)]) [] [] [1])
            ''t'' 1) = Inl ''fetch failed''"
    by code_simp
  show "fst (processJob (demo_env_dropping (demo_target [(''copy_count'', JNum 1)]) [] [] [1])
            demo_job 0)
       = Inl (ApiRejected ''fetch failed'')"
    by code_simp
  show "map (\<lambda>(q, r). reply_ok r)
        (posted (fst (snd (processJob
           (demo_env_dropping (demo_target [(''copy_count'', JNum 1)]) [] [] [2]) demo_job 0))))
       = [True]"
    by code_simp
  show "fst (processJob (demo_env_dropping (demo_target [(''copy_count'', JNum 1)]) [] [] [2])
            demo_job 0)
       = Inl (ApiRejected ''fetch failed'')"
    by code_simp
  show "fst (processJob (demo_env (demo_target [(''copy_count'', JNum 1)]) [] []) demo_job 0)
       = Inr [EntityId ''c0'']"
    by code_simp
  show "fst (processJob (demo_env (demo_target [(''copy_count'', JNum 1)]) [] [1]) demo_job 0)
       = Inr [EntityId ''c0'']"
    by code_simp
  show "fst (processJob (demo_env (demo_target [(''copy_count'', JNum 1)]) [] [2]) demo_job 0)
       = Inr [EntityId ''c0'']"
    by code_simp
qed

section \<open>Failure of a creation in the job\<close>

lemma create_batches_accepted:
  assumes run: "create_batches E jb target mix numCopies 0 [] w = (Inr copies, evs, w')"
    and mem: "(q, r) \<in> set (posted evs)"
  shows "reply_ok r"
proof (cases "to_number (StringToNumber E) numCopies")
  case None
  then have "create_batches E jb target mix numCopies 0 [] w = (Inr [], [], w)"
    by (intro create_batches_stop) simp
  with run mem show ?thesis by simp
next
  case (Some n)
  from create_batches_all_ok [OF Some run mem] show ?thesis .
qed

text \<open>
  The requests of one batch are those of its indices, and when the batch is awaited
  without a throw the store has accepted every one of them.
\<close>

lemma await_batch_members:
  assumes ab: "await_batch pk exec (\<lambda>slot. then_created mix (bs + slot)) (map f [bs..<be]) w
                 = (res, dn, w')"
    and mem: "(s, q, r) \<in> set dn"
  shows "\<exists>i. bs \<le> i \<and> i < be \<and> q = f i \<and> (\<forall>vs. res = Inr vs \<longrightarrow> reply_ok r)"
proof -
  let ?reqs = "map f [bs..<be]"
  let ?n = "length ?reqs"
  from await_batch_shape [OF ab] obtain rs where
    len: "length rs = ?n"
    and ms: "mset dn = mset (zip [0..<?n] (zip ?reqs rs))"
    and cs: "case res of
               Inr vs \<Rightarrow> map Inr vs
                          = map (\<lambda>(k, r). then_created mix (bs + k) r) (zip [0..<?n] rs)
             | Inl e \<Rightarrow> \<exists>k < ?n. then_created mix (bs + k) (rs ! k) = Inl e"
    by blast
  from ms have "set dn = set (zip [0..<?n] (zip ?reqs rs))" by (rule mset_eq_setD)
  with mem have "(s, q, r) \<in> set (zip [0..<?n] (zip ?reqs rs))" by simp
  then obtain k where k: "k < ?n" and q: "q = ?reqs ! k" and r: "r = rs ! k"
    unfolding set_zip using len by auto
  from k have kb: "bs + k < be" by simp
  from k q have qf: "q = f (bs + k)" by simp
  have ok: "reply_ok r" if "res = Inr vs" for vs
  proof -
    from cs that have eq: "map Inr vs
        = map (\<lambda>(k, r). then_created mix (bs + k) r) (zip [0..<?n] rs)"
      by simp
    have lv: "length vs = ?n" using arg_cong [OF eq, of length] len by simp
    have "map Inr vs ! k = (Inr (vs ! k) :: job_error + copy_result)" using k lv by simp
    moreover have "map (\<lambda>(k, r). then_created mix (bs + k) r) (zip [0..<?n] rs) ! k
                     = then_created mix (bs + k) (rs ! k)"
      using k len by simp
    ultimately have "then_created mix (bs + k) r = Inr (vs ! k)" using eq r by simp
    then show ?thesis by (simp add: then_created_Inr)
  qed
  from kb qf ok show ?thesis by (intro exI [of _ "bs + k"]) simp
qed

lemma same_index:
  assumes "q = copy_request jb target numCopies now mix j"
    and "get_prop (cb_properties q) ''copy_index'' = JNum (int i)"
  shows "i = j"
  using assms by (simp add: copy_request_copy_index)

lemma batch_index_zero:
  assumes "bs \<le> i" and "i < be" and "be \<le> bs + BATCH_SIZE"
  shows "(i - bs) div BATCH_SIZE = 0"
proof -
  from assms have "i - bs < BATCH_SIZE" by linarith
  then show ?thesis by (rule div_less)
qed

lemma batch_index_Suc:
  assumes "bs + BATCH_SIZE \<le> i"
  shows "(i - bs) div BATCH_SIZE = Suc ((i - (bs + BATCH_SIZE)) div BATCH_SIZE)"
proof -
  from assms have "i - bs = (i - (bs + BATCH_SIZE)) + BATCH_SIZE" by linarith
  moreover have "((i - (bs + BATCH_SIZE)) + BATCH_SIZE) div BATCH_SIZE
                   = Suc ((i - (bs + BATCH_SIZE)) div BATCH_SIZE)"
    by (simp add: BATCH_SIZE_def)
  ultimately show ?thesis by (simp only:)
qed

lemma posted_batch_mem:
  "(q, r) \<in> set (posted (map (\<lambda>(slot, q, r). Posted q r) dn)) \<longleftrightarrow> (\<exists>s. (s, q, r) \<in> set dn)"
  unfolding posted_map_Posted by force

text \<open>
  The loop stops at the batch of a refusal: a creation that the store refused is in the
  last batch whose requests were issued.
\<close>

lemma create_batches_fail_fast:
  assumes run: "create_batches E jb target mix numCopies bs copies w = (res, evs, w')"
    and mem1: "(q1, r1) \<in> set (posted evs)" and bad: "\<not> reply_ok r1"
    and mem2: "(q2, r2) \<in> set (posted evs)"
    and i1: "get_prop (cb_properties q1) ''copy_index'' = JNum (int i1)"
    and i2: "get_prop (cb_properties q2) ''copy_index'' = JNum (int i2)"
  shows "bs \<le> i1 \<and> bs \<le> i2 \<and> (i2 - bs) div BATCH_SIZE \<le> (i1 - bs) div BATCH_SIZE"
  using run mem1 mem2
proof (induction "batches_left E numCopies bs" arbitrary: bs copies w res evs w' rule: less_induct)
  case less
  from less.prems(1) show ?case
  proof (cases rule: create_batches_cases)
    case stop
    from less.prems(2) show ?thesis unfolding stop(2) by simp
  next
    case (reject n e dn)
    define be where "be = min (bs + BATCH_SIZE) (nat n)"
    note ab = reject(3) [folded be_def]
    have beb: "be \<le> bs + BATCH_SIZE" unfolding be_def by (rule min.cobounded1)
    from less.prems(2) obtain s1 where s1: "(s1, q1, r1) \<in> set dn"
      unfolding reject(5) posted_batch_mem ..
    from await_batch_members [OF ab s1] obtain j1 where
      j1: "bs \<le> j1 \<and> j1 < be \<and> q1 = copy_request jb target numCopies (now_iso E w) mix j1
           \<and> (\<forall>vs :: copy_result list. Inl e = Inr vs \<longrightarrow> reply_ok r1)" ..
    from less.prems(3) obtain s2 where s2: "(s2, q2, r2) \<in> set dn"
      unfolding reject(5) posted_batch_mem ..
    from await_batch_members [OF ab s2] obtain j2 where
      j2: "bs \<le> j2 \<and> j2 < be \<and> q2 = copy_request jb target numCopies (now_iso E w) mix j2
           \<and> (\<forall>vs :: copy_result list. Inl e = Inr vs \<longrightarrow> reply_ok r2)" ..
    have e1: "i1 = j1" using j1 i1 by (intro same_index) simp_all
    have e2: "i2 = j2" using j2 i2 by (intro same_index) simp_all
    have z: "(i2 - bs) div BATCH_SIZE = 0"
      using j2 beb unfolding e2 by (intro batch_index_zero) simp_all
    from j1 j2 show ?thesis unfolding z unfolding e1 e2 by simp
  next
    case (step n vs dn w1 evs2)
    define be where "be = min (bs + BATCH_SIZE) (nat n)"
    note ab = step(3) [folded be_def]
    have beb: "be \<le> bs + BATCH_SIZE" unfolding be_def by (rule min.cobounded1)
    have pe: "(q, r) \<in> set (posted evs)
                \<longleftrightarrow> (\<exists>s. (s, q, r) \<in> set dn) \<or> (q, r) \<in> set (posted evs2)" for q r
      unfolding step(5) posted_append set_append Un_iff posted_batch_mem posted_Log_Cons ..
    have nb: "\<not> (\<exists>s. (s, q1, r1) \<in> set dn)"
    proof
      assume "\<exists>s. (s, q1, r1) \<in> set dn"
      then obtain s1 where s1: "(s1, q1, r1) \<in> set dn" ..
      from await_batch_members [OF ab s1] obtain j where
        "bs \<le> j \<and> j < be \<and> q1 = copy_request jb target numCopies (now_iso E w) mix j
           \<and> (\<forall>vs'. (Inr vs :: job_error + copy_result list) = Inr vs' \<longrightarrow> reply_ok r1)" ..
      then have "reply_ok r1" by simp
      with bad show False ..
    qed
    from less.prems(2) nb have m1: "(q1, r1) \<in> set (posted evs2)" unfolding pe by simp
    from create_batches_bodies [OF step(1) step(4) m1] obtain now1 j1 where
      j1: "bs + BATCH_SIZE \<le> j1 \<and> int j1 < n \<and> q1 = copy_request jb target numCopies now1 mix j1"
      by (elim exE)
    have e1: "i1 = j1" using j1 i1 by (intro same_index) simp_all
    from j1 have b1: "bs + BATCH_SIZE \<le> i1" unfolding e1 by simp
    from less.prems(3) have "(\<exists>s. (s, q2, r2) \<in> set dn) \<or> (q2, r2) \<in> set (posted evs2)"
      unfolding pe .
    then show ?thesis
    proof
      assume "\<exists>s. (s, q2, r2) \<in> set dn"
      then obtain s2 where s2: "(s2, q2, r2) \<in> set dn" ..
      from await_batch_members [OF ab s2] obtain j2 where
        j2: "bs \<le> j2 \<and> j2 < be \<and> q2 = copy_request jb target numCopies (now_iso E w) mix j2
           \<and> (\<forall>vs'. (Inr vs :: job_error + copy_result list) = Inr vs' \<longrightarrow> reply_ok r2)" ..
      have e2: "i2 = j2" using j2 i2 by (intro same_index) simp_all
      have z: "(i2 - bs) div BATCH_SIZE = 0"
        using j2 beb unfolding e2 by (intro batch_index_zero) simp_all
      from b1 j2 show ?thesis unfolding z unfolding e2 by simp
    next
      assume later: "(q2, r2) \<in> set (posted evs2)"
      note ih = less.hyps [OF batches_left_less [OF step(1,2)] step(4) m1 later]
      note h = conjunct1 [OF ih] conjunct1 [OF conjunct2 [OF ih]] conjunct2 [OF conjunct2 [OF ih]]
      have "bs \<le> i1" using h(1) by linarith
      moreover have "bs \<le> i2" using h(2) by linarith
      moreover have "(i2 - bs) div BATCH_SIZE \<le> (i1 - bs) div BATCH_SIZE"
        unfolding batch_index_Suc [OF h(1)] batch_index_Suc [OF h(2)] using h(3) by linarith
      ultimately show ?thesis by (intro conjI)
    qed
  qed
qed


lemma processJob_generate_posted:
  assumes ft: "fetchTarget E w = (Inr target, w0)"
    and gen: "get_prop (ent_properties target) ''use_existing_copies'' \<noteq> JBool True"
    and cb: "create_batches E jb target
               (get_prop (ent_properties target) ''mix_entity_class'' = JBool True)
               (numCopies_of target) 0 [] w0 = (cres, cevs, w1)"
    and run: "processJob E jb w = (res, evs, w')"
  shows "posted evs = posted cevs"
proof -
  note pj = processJob_generate [OF ft gen cb, unfolded run]
  show ?thesis
  proof (cases cres)
    case (Inl e)
    with pj show ?thesis by simp
  next
    case (Inr copies)
    show ?thesis
    proof (cases "fst (add_has_copy E target copies w1)")
      case (Inl e)
      with pj \<open>cres = Inr copies\<close> show ?thesis
        by (simp add: posted_append posted_add_has_copy)
    next
      case (Inr u)
      with pj \<open>cres = Inr copies\<close> show ?thesis
        by (simp add: posted_append posted_add_has_copy)
    qed
  qed
qed

text \<open>
  Claim C7. In the generation path, if any creation request of the job was refused,
  the job fails: it throws the error of a refused creation. It fails fast: every
  creation that was refused is in the last batch whose requests were issued, so that no
  creation request follows the batch of the failure. The job has then issued nothing but
  creation requests: no tip read, no update, no fetch, and the outside world is left as
  the creation requests of the trace left it, those that succeeded included, in earlier
  batches or in the batch of the failure. The job has no request that deletes.
\<close>

theorem C7_creation_failure_aborts_without_rollback:
  assumes ft: "fetchTarget E w = (Inr target, w0)"
    and gen: "get_prop (ent_properties target) ''use_existing_copies'' \<noteq> JBool True"
    and run: "processJob E jb w = (res, evs, w')"
    and mem: "(q, r) \<in> set (posted evs)"
    and bad: "\<not> reply_ok r"
  shows "(\<exists>i q' r'. res = Inl (CreateCopyFailed (i + 1) (error r'))
                   \<and> (q', r') \<in> set (posted evs) \<and> \<not> reply_ok r'
                   \<and> get_prop (cb_properties q') ''copy_index'' = JNum (int i))
       \<and> (\<forall>q1 r1 q2 r2.
             (q1, r1) \<in> set (posted evs) \<and> \<not> reply_ok r1 \<and> (q2, r2) \<in> set (posted evs)
             \<longrightarrow> (\<exists>i1 i2. get_prop (cb_properties q1) ''copy_index'' = JNum (int i1)
                          \<and> get_prop (cb_properties q2) ''copy_index'' = JNum (int i2)
                          \<and> i2 div BATCH_SIZE \<le> i1 div BATCH_SIZE))
       \<and> backlink_calls evs = []
       \<and> fetched evs = []
       \<and> w' = foldl (\<lambda>w q. snd (api_POST_entities E q w)) w0 (map fst (posted evs))"
proof -
  let ?mix = "get_prop (ent_properties target) ''mix_entity_class'' = JBool True"
  obtain cres cevs w1 where cb:
    "create_batches E jb target ?mix (numCopies_of target) 0 [] w0 = (cres, cevs, w1)"
    by (rule prod_cases3)
  note pj = processJob_generate [OF ft gen cb, unfolded run]
  have pe: "posted evs = posted cevs"
    by (rule processJob_generate_posted [OF ft gen cb run])
  show ?thesis
  proof (cases cres)
    case (Inr copies)
    from mem have "(q, r) \<in> set (posted cevs)" unfolding pe .
    from create_batches_accepted [OF cb [unfolded Inr] this] bad show ?thesis by simp
  next
    case (Inl e)
    with pj have res: "res = Inl e"
      and evs: "evs = Log ''info'' ''Scatter worker starting'' # Log ''info'' ''Fetched target entity'' # cevs"
      and w': "w' = w1"
      by simp_all
    note cbe = cb [unfolded Inl]
    obtain n where n: "to_number (StringToNumber E) (numCopies_of target) = Some n"
      using cbe by (cases rule: create_batches_cases) simp_all
    from create_batches_Inl [OF cbe] obtain now i r' where
      m: "(copy_request jb target (numCopies_of target) now ?mix i, r') \<in> set (posted cevs)"
      and b: "\<not> reply_ok r'" and e: "e = CreateCopyFailed (i + 1) (error r')"
      by blast
    have a: "\<exists>i q' r'. res = Inl (CreateCopyFailed (i + 1) (error r'))
                   \<and> (q', r') \<in> set (posted evs) \<and> \<not> reply_ok r'
                   \<and> get_prop (cb_properties q') ''copy_index'' = JNum (int i)"
      using m b e res pe copy_request_copy_index by fastforce
    have ff: "\<forall>q1 r1 q2 r2.
             (q1, r1) \<in> set (posted evs) \<and> \<not> reply_ok r1 \<and> (q2, r2) \<in> set (posted evs)
             \<longrightarrow> (\<exists>i1 i2. get_prop (cb_properties q1) ''copy_index'' = JNum (int i1)
                          \<and> get_prop (cb_properties q2) ''copy_index'' = JNum (int i2)
                          \<and> i2 div BATCH_SIZE \<le> i1 div BATCH_SIZE)"
    proof (intro allI impI, elim conjE)
      fix q1 r1 q2 r2
      assume m1: "(q1, r1) \<in> set (posted evs)" and b1: "\<not> reply_ok r1"
        and m2: "(q2, r2) \<in> set (posted evs)"
      from m1 have c1: "(q1, r1) \<in> set (posted cevs)" unfolding pe .
      from m2 have c2: "(q2, r2) \<in> set (posted cevs)" unfolding pe .
      from create_batches_bodies [OF n cbe c1] obtain now1 i1 where
        "q1 = copy_request jb target (numCopies_of target) now1 ?mix i1" by blast
      then have x1: "get_prop (cb_properties q1) ''copy_index'' = JNum (int i1)"
        by (simp add: copy_request_copy_index)
      from create_batches_bodies [OF n cbe c2] obtain now2 i2 where
        "q2 = copy_request jb target (numCopies_of target) now2 ?mix i2" by blast
      then have x2: "get_prop (cb_properties q2) ''copy_index'' = JNum (int i2)"
        by (simp add: copy_request_copy_index)
      from create_batches_fail_fast [OF cbe c1 b1 c2 x1 x2]
      have "i2 div BATCH_SIZE \<le> i1 div BATCH_SIZE" by simp
      with x1 x2 show "\<exists>i1 i2. get_prop (cb_properties q1) ''copy_index'' = JNum (int i1)
                          \<and> get_prop (cb_properties q2) ''copy_index'' = JNum (int i2)
                          \<and> i2 div BATCH_SIZE \<le> i1 div BATCH_SIZE"
        by (intro exI conjI)
    qed
    from create_batches_only_posts [OF cb]
    have c: "backlink_calls evs = []" and d: "fetched evs = []"
      unfolding evs by simp_all
    have f: "w' = foldl (\<lambda>w q. snd (api_POST_entities E q w)) w0 (map fst (posted evs))"
      unfolding w' pe by (rule create_batches_world [OF cb])
    from a ff c d f show ?thesis by (intro conjI)
  qed
qed

text \<open>
  The theorem run against the demo store for \<^verbatim>\<open>copy_count: 21\<close>, two batches, when the
  store refuses the first request it serves, that of index 19: the job fails with the
  error of copy 20; the twenty requests of the first batch were all issued, and the
  nineteen copies created after the refusal stay created; the request of index 20, of
  the second batch, was never issued, and the store has served twenty requests.
\<close>

theorem C7_creation_failure_aborts_without_rollback_witness:
  "fetchTarget (demo_env (demo_target [(''copy_count'', JNum 21)]) [] [0]) 0
     = (Inr (demo_target [(''copy_count'', JNum 21)]), 0)
   \<and> get_prop (ent_properties (demo_target [(''copy_count'', JNum 21)])) ''use_existing_copies''
       \<noteq> JBool True
   \<and> map (\<lambda>(q, r). (get_prop (cb_properties q) ''copy_index'', reply_ok r))
        (posted (fst (snd (processJob (demo_env (demo_target [(''copy_count'', JNum 21)]) [] [0])
           demo_job 0))))
       = (JNum 19, False) # map (\<lambda>i. (JNum (int i), True)) (rev [0..<19])
   \<and> fst (processJob (demo_env (demo_target [(''copy_count'', JNum 21)]) [] [0]) demo_job 0)
       = Inl (CreateCopyFailed 20 (Some ''500''))
   \<and> backlink_calls (fst (snd (processJob (demo_env (demo_target [(''copy_count'', JNum 21)])
         [] [0]) demo_job 0))) = []
   \<and> fetched (fst (snd (processJob (demo_env (demo_target [(''copy_count'', JNum 21)])
         [] [0]) demo_job 0))) = []
   \<and> snd (snd (processJob (demo_env (demo_target [(''copy_count'', JNum 21)]) [] [0]) demo_job 0))
       = 20"
proof -
  let ?T = "demo_target [(''copy_count'', JNum 21)]"
  let ?E = "demo_env ?T [] [0]"
  let ?run = "processJob ?E demo_job 0"
  let ?q = "copy_request demo_job ?T (JNum 21) ''2026-01-01T00:00:00.000Z'' False 19"
  have ft: "fetchTarget ?E 0 = (Inr ?T, 0)" by (simp add: demo_env_def)
  have gen: "get_prop (ent_properties ?T) ''use_existing_copies'' \<noteq> JBool True" by code_simp
  have ps: "map (\<lambda>(q, r). (get_prop (cb_properties q) ''copy_index'', reply_ok r))
              (posted (fst (snd ?run)))
              = (JNum 19, False) # map (\<lambda>i. (JNum (int i), True)) (rev [0..<19])"
    by code_simp
  have res: "fst ?run = Inl (CreateCopyFailed 20 (Some ''500''))" by code_simp
  have fin: "snd (snd ?run) = 20" by code_simp
  have p0: "hd (posted (fst (snd ?run))) = (?q, err_reply ''500'')" by code_simp
  have "posted (fst (snd ?run)) \<noteq> []" using ps by auto
  then have "hd (posted (fst (snd ?run))) \<in> set (posted (fst (snd ?run)))" by (rule hd_in_set)
  then have mem: "(?q, err_reply ''500'') \<in> set (posted (fst (snd ?run)))" by (simp only: p0)
  have bad: "\<not> reply_ok (err_reply ''500'' :: entity reply)"
    by (simp add: reply_ok_def err_reply_def)
  have run: "?run = (fst ?run, fst (snd ?run), snd (snd ?run))" by simp
  note C7 = C7_creation_failure_aborts_without_rollback [OF ft gen run mem bad]
  from C7 have bl: "backlink_calls (fst (snd ?run)) = []"
    by (elim conjE)
  from C7 have fe: "fetched (fst (snd ?run)) = []"
    by (elim conjE)
  from ft gen ps res bl fe fin show ?thesis by (intro conjI)
qed

end
